theory Spec2Isabelle
  imports
    Complex_Main
    "HOL-Library.AList"
    "HOL-Library.Char_ord"
    "HOL-Library.List_Lexorder"
    "HOL-Library.Multiset"
    "HOL-Library.Product_Lexorder"
    "HOL-Library.Word"
begin

chapter \<open>The McNaughton Neurolab converter: parsers and session merges\<close>

text \<open>
  A shallow embedding of \<open>cel_file.py\<close>, \<open>rma_file.py\<close> and the merges of
  \<open>convert_session.py\<close>, followed by the properties of the specification that were
  checked against it. The model comes first, then reference definitions that say what the
  properties talk about, then the proofs.
\<close>

section \<open>Python text primitives used by the parsers\<close>

text \<open>
  Text is a list of characters with code points below 256. Strings compare as Python's
  do: lexicographically by code point, a proper prefix first
  (\<^theory_text>\<open>List_Lexorder\<close> over \<^theory_text>\<open>Char_ord\<close>).

  Exceptions are values. The source raises \<open>ValueError\<close> with three different messages
  (no fields line, no end-of-header line, wrong binary size); \<open>int()\<close>, a tuple
  unpacking of the wrong length, \<open>numpy.frombuffer\<close> on a short buffer and
  \<open>numpy.concatenate\<close> of no arrays raise \<open>ValueError\<close> too; a missing data-frame
  column is a \<open>KeyError\<close>, a list index out of range an \<open>IndexError\<close>;
  \<open>numpy.isnan\<close> of a value it has no type for is a \<open>TypeError\<close>; whatever
  \<open>pandas.read_csv\<close> raises is kept apart.
\<close>

datatype error =
    ValueError_NoFields
  | ValueError_NoEndHeader
  | ValueError_Size nat
  | ValueError_Int
  | ValueError_Unpack
  | ValueError_Buffer
  | ValueError_Concatenate
  | KeyError string
  | IndexError
  | TypeError
  | ReadCsvError

fun is_ValueError :: "error \<Rightarrow> bool" where
  "is_ValueError (KeyError k) = False"
| "is_ValueError IndexError = False"
| "is_ValueError TypeError = False"
| "is_ValueError ReadCsvError = False"
| "is_ValueError e = True"

text \<open>\<open>str.isspace\<close> on one character: the code points Unicode counts as white space.\<close>

definition py_isspace :: "char \<Rightarrow> bool" where
  "py_isspace c \<longleftrightarrow>
     c \<in> set [CHR 0x09, CHR 0x0A, CHR 0x0B, CHR 0x0C, CHR 0x0D,
               CHR 0x1C, CHR 0x1D, CHR 0x1E, CHR 0x1F, CHR 0x20, CHR 0x85, CHR 0xA0]"

definition py_lstrip :: "string \<Rightarrow> string" where
  "py_lstrip s = dropWhile py_isspace s"

definition py_rstrip :: "string \<Rightarrow> string" where
  "py_rstrip s = rev (dropWhile py_isspace (rev s))"

definition py_strip :: "string \<Rightarrow> string" where
  "py_strip s = py_rstrip (py_lstrip s)"

text \<open>\<open>s.split(sep)\<close> for a one-character separator: n separators give n + 1 parts.\<close>

fun split_acc :: "char \<Rightarrow> string \<Rightarrow> string \<Rightarrow> string list" where
  "split_acc sep cur [] = [rev cur]"
| "split_acc sep cur (c # cs) =
     (if c = sep then rev cur # split_acc sep [] cs else split_acc sep (c # cur) cs)"

definition py_split :: "char \<Rightarrow> string \<Rightarrow> string list" where
  "py_split sep s = split_acc sep [] s"

text \<open>\<open>s.split(sep, 1)\<close>: cut at the first separator, if there is one.\<close>

definition py_split1 :: "char \<Rightarrow> string \<Rightarrow> string list" where
  "py_split1 sep s =
     (if sep \<in> set s
      then [takeWhile (\<lambda>c. c \<noteq> sep) s, tl (dropWhile (\<lambda>c. c \<noteq> sep) s)]
      else [s])"

text \<open>\<open>s.split()\<close>: the maximal runs of characters that are not white space.\<close>

fun words_acc :: "string \<Rightarrow> string \<Rightarrow> string list" where
  "words_acc cur [] = (if cur = [] then [] else [rev cur])"
| "words_acc cur (c # cs) =
     (if py_isspace c
      then (if cur = [] then words_acc [] cs else rev cur # words_acc [] cs)
      else words_acc (c # cur) cs)"

definition py_split_ws :: "string \<Rightarrow> string list" where
  "py_split_ws s = words_acc [] s"

text \<open>
  \<open>str.splitlines\<close>: a line ends at a line feed, a carriage return (with the line feed
  that follows it, if any), a vertical tab, a form feed, a file, group or record separator
  or a next-line character; the text after the last boundary is a line only if it is not
  empty.
\<close>

definition is_linebreak :: "char \<Rightarrow> bool" where
  "is_linebreak c \<longleftrightarrow>
     c \<in> set [CHR 0x0A, CHR 0x0B, CHR 0x0C, CHR 0x0D, CHR 0x1C, CHR 0x1D, CHR 0x1E, CHR 0x85]"

fun splitlines_acc :: "string \<Rightarrow> string \<Rightarrow> string list" where
  "splitlines_acc cur [] = (if cur = [] then [] else [rev cur])"
| "splitlines_acc cur [c] = (if is_linebreak c then [rev cur] else [rev (c # cur)])"
| "splitlines_acc cur (c # d # cs) =
     (if c = CHR 0x0D \<and> d = CHR 0x0A then rev cur # splitlines_acc [] cs
      else if is_linebreak c then rev cur # splitlines_acc [] (d # cs)
      else splitlines_acc (c # cur) (d # cs))"

definition splitlines :: "string \<Rightarrow> string list" where
  "splitlines s = splitlines_acc [] s"

text \<open>
  \<open>int(s)\<close> in base ten: white space around the literal is ignored, one sign is allowed,
  then digits with single underscores between them. The white space \<open>int\<close> ignores is
  narrower than that of \<open>str.strip\<close>: the four separators \<open>0x1C\<close> to \<open>0x1F\<close> are
  not part of it. CPython refuses a literal of more than 4300 digits with the same
  \<open>ValueError\<close>.
\<close>

definition int_isspace :: "char \<Rightarrow> bool" where
  "int_isspace c \<longleftrightarrow>
     c \<in> set [CHR 0x09, CHR 0x0A, CHR 0x0B, CHR 0x0C, CHR 0x0D, CHR 0x20, CHR 0x85, CHR 0xA0]"

definition int_strip :: "string \<Rightarrow> string" where
  "int_strip s = rev (dropWhile int_isspace (rev (dropWhile int_isspace s)))"

definition is_digit :: "char \<Rightarrow> bool" where
  "is_digit c \<longleftrightarrow> CHR ''0'' \<le> c \<and> c \<le> CHR ''9''"

fun digits_ok :: "string \<Rightarrow> bool" where
  "digits_ok [] = False"
| "digits_ok [c] = is_digit c"
| "digits_ok (c # d # cs) =
     (is_digit c \<and> (if d = CHR ''_'' then digits_ok cs else digits_ok (d # cs)))"

definition digits_value :: "string \<Rightarrow> int" where
  "digits_value ds = foldl (\<lambda>n c. 10 * n + (of_char c - 48)) 0 ds"

definition int_max_str_digits :: nat where
  "int_max_str_digits = 4300"

definition py_int :: "string \<Rightarrow> error + int" where
  "py_int s =
     (let t = int_strip s;
          neg = (case t of [] \<Rightarrow> False | c # r \<Rightarrow> c = CHR ''-'');
          body = (case t of [] \<Rightarrow> [] | c # r \<Rightarrow> if c = CHR ''-'' \<or> c = CHR ''+'' then r else t);
          ds = filter is_digit body
      in if digits_ok body \<and> length ds \<le> int_max_str_digits
         then Inr (if neg then - digits_value ds else digits_value ds)
         else Inl ValueError_Int)"

text \<open>The list comprehension \<open>[int(p) for p in parts]\<close>: the first failure is raised.\<close>

fun int_all :: "string list \<Rightarrow> error + int list" where
  "int_all [] = Inr []"
| "int_all (p # ps) =
     (case py_int p of
        Inl e \<Rightarrow> Inl e
      | Inr n \<Rightarrow> (case int_all ps of Inl e \<Rightarrow> Inl e | Inr ns \<Rightarrow> Inr (n # ns)))"

section \<open>Clock strings (\<open>CelFile._parse_time_str\<close>)\<close>

text \<open>
  The result is a Python integer number of seconds, kept exact, or the float NaN.
\<close>

datatype seconds = NaN | Sec int

definition parse_time_str :: "string \<Rightarrow> error + seconds" where
  "parse_time_str time_str =
     (if time_str = [] then Inr NaN
      else
        (case int_all (py_split CHR '':'' (py_strip time_str)) of
           Inl e \<Rightarrow> (if is_ValueError e then Inr NaN else Inl e)
         | Inr parts \<Rightarrow>
             if length parts = 3 then Inr (Sec (parts ! 0 * 3600 + parts ! 1 * 60 + parts ! 2))
             else if length parts = 2 then Inr (Sec (parts ! 0 * 60 + parts ! 1))
             else Inr NaN))"

section \<open>Text spike files (\<open>cel_file.py\<close>)\<close>

text \<open>
  The data frame that \<open>pandas.read_csv\<close> returns is a list of rows, each row a list of
  cells in the order of the field list. A cell is \<open>NA\<close> where pandas has a missing value
  (no token at that position, or one of its NA spellings), \<open>Num v\<close> where the token reads
  as the number \<open>v\<close>, and \<open>Txt s\<close> where the token is any other text, which pandas keeps
  as the string it read. A number is a value of a linear order: the 64-bit floats but
  NaN (the two zeros, which compare equal, taken as one); an array holds NaN as
  \<open>None\<close>. A row shorter than the field list is padded with \<open>NA\<close>, as pandas pads it.
\<close>

datatype 'a cell = NA | Num 'a | Txt string

record 'a CelFile =
  fields_list :: "string list"
  header :: "(string \<times> string) list"
  data :: "'a cell list list"
  cluster :: "int option"
  session_type :: string
  start_time_sec :: seconds
  end_time_sec :: seconds
  has_position :: bool

fun index_of :: "'b list \<Rightarrow> 'b \<Rightarrow> nat" where
  "index_of [] y = 0"
| "index_of (x # xs) y = (if x = y then 0 else Suc (index_of xs y))"

definition cell_at :: "'a cell list \<Rightarrow> nat \<Rightarrow> 'a cell" where
  "cell_at row i = (if i < length row then row ! i else NA)"

text \<open>\<open>self.data[name]\<close>: the column of that name, or \<open>KeyError\<close>.\<close>

definition column :: "'a CelFile \<Rightarrow> string \<Rightarrow> error + 'a cell list" where
  "column cel name =
     (if name \<in> set (fields_list cel)
      then Inr (map (\<lambda>row. cell_at row (index_of (fields_list cel) name)) (data cel))
      else Inl (KeyError name))"

text \<open>\<open>pd.to_numeric(..., errors="coerce")\<close> on one cell: what is not a number is NaN.\<close>

fun to_numeric :: "'a cell \<Rightarrow> 'a option" where
  "to_numeric NA = None"
| "to_numeric (Num v) = Some v"
| "to_numeric (Txt s) = None"

definition spike_times :: "'a CelFile \<Rightarrow> error + 'a option list" where
  "spike_times cel =
     (case column cel ''time'' of Inl e \<Rightarrow> Inl e | Inr col \<Rightarrow> Inr (map to_numeric col))"

definition pos_x :: "'a CelFile \<Rightarrow> error + 'a option list option" where
  "pos_x cel =
     (if \<not> has_position cel then Inr None
      else case column cel ''pos_x'' of
             Inl e \<Rightarrow> Inl e
           | Inr col \<Rightarrow> Inr (Some (map to_numeric col)))"

definition pos_y :: "'a CelFile \<Rightarrow> error + 'a option list option" where
  "pos_y cel =
     (if \<not> has_position cel then Inr None
      else case column cel ''pos_y'' of
             Inl e \<Rightarrow> Inl e
           | Inr col \<Rightarrow> Inr (Some (map to_numeric col)))"

text \<open>\<open>header.get(key, "")\<close> on the header dictionary.\<close>

definition header_get :: "(string \<times> string) list \<Rightarrow> string \<Rightarrow> string" where
  "header_get hdr key = (case map_of hdr key of None \<Rightarrow> [] | Some v \<Rightarrow> v)"

text \<open>\<open>_parse_cluster\<close>: the first run of digits of the \<open>Cluster\<close> value.\<close>

definition parse_cluster :: "(string \<times> string) list \<Rightarrow> error + int option" where
  "parse_cluster hdr =
     (let raw = header_get hdr ''Cluster'' in
      if raw = [] then Inr None
      else
        (let m = takeWhile is_digit (dropWhile (\<lambda>c. \<not> is_digit c) raw) in
         if m = [] then Inr None
         else case py_int m of Inl e \<Rightarrow> Inl e | Inr n \<Rightarrow> Inr (Some n)))"

text \<open>\<open>_infer_session_type\<close>, given \<open>name = path.stem.upper()\<close>.\<close>

definition infer_session_type :: "string \<Rightarrow> string" where
  "infer_session_type name =
     (if take 2 name = ''BL'' then ''BL''
      else if take 2 name = ''ES'' then ''ES''
      else if take 2 name = ''MC'' then ''MC''
      else ''unknown'')"

text \<open>The constructor with \<open>__post_init__\<close>: the derived attributes, in the source's order.\<close>

definition CelFile_init ::
  "string \<Rightarrow> string list \<Rightarrow> (string \<times> string) list \<Rightarrow> 'a cell list list \<Rightarrow> error + 'a CelFile" where
  "CelFile_init name fs hdr df =
     (case parse_cluster hdr of
        Inl e \<Rightarrow> Inl e
      | Inr cl \<Rightarrow>
          (case parse_time_str (header_get hdr ''Start time'') of
             Inl e \<Rightarrow> Inl e
           | Inr t0 \<Rightarrow>
               (case parse_time_str (header_get hdr ''End time'') of
                  Inl e \<Rightarrow> Inl e
                | Inr t1 \<Rightarrow>
                    Inr \<lparr> fields_list = fs, header = hdr, data = df, cluster = cl,
                          session_type = infer_session_type name,
                          start_time_sec = t0, end_time_sec = t1,
                          has_position = (''pos_x'' \<in> set fs \<and> ''pos_y'' \<in> set fs) \<rparr>)))"

text \<open>
  The pattern \<open>^%?\s*fields\s*:\<close>, matched without regard to case at the start of the
  trimmed line.
\<close>

definition ascii_lower :: "char \<Rightarrow> char" where
  "ascii_lower c =
     (if CHR ''A'' \<le> c \<and> c \<le> CHR ''Z'' then char_of (of_char c + (32 :: nat)) else c)"

definition fields_match :: "string \<Rightarrow> bool" where
  "fields_match s =
     (let r = (case s of [] \<Rightarrow> [] | c # t \<Rightarrow> if c = CHR ''%'' then t else s);
          r1 = dropWhile py_isspace r
      in map ascii_lower (take 6 r1) = ''fields'' \<and>
         (case dropWhile py_isspace (drop 6 r1) of [] \<Rightarrow> False | c # t \<Rightarrow> c = CHR '':''))"

text \<open>
  The body of the scan loop before its test for the end of the header, on the trimmed
  line \<open>s\<close>: the state is the field list found so far and the header dictionary.
\<close>

definition scan_line ::
  "string \<Rightarrow> string list option \<times> (string \<times> string) list \<Rightarrow>
     error + (string list option \<times> (string \<times> string) list)" where
  "scan_line s st =
     (case
        (if take 1 s = ''%'' \<and> CHR '':'' \<in> set s \<and> \<not> fields_match s
         then (case py_split1 CHR '':'' (py_strip (dropWhile (\<lambda>c. c = CHR ''%'') s)) of
                 [k, v] \<Rightarrow> Inr (AList.update (py_strip k) (py_strip v) (snd st))
               | _ \<Rightarrow> Inl ValueError_Unpack)
         else Inr (snd st))
      of
        Inl e \<Rightarrow> Inl e
      | Inr hdr \<Rightarrow>
          if fields_match s
          then (case py_split1 CHR '':'' s of
                  a # rhs # _ \<Rightarrow> Inr (Some (py_split_ws (py_strip rhs)), hdr)
                | _ \<Rightarrow> Inl IndexError)
          else Inr (fst st, hdr))"

text \<open>The loop over \<open>enumerate(lines[:800])\<close>; it stops at the end-of-header line.\<close>

fun scan_header ::
  "nat \<Rightarrow> string list \<Rightarrow> string list option \<times> (string \<times> string) list \<Rightarrow>
     error + ((string list option \<times> (string \<times> string) list) \<times> nat option)" where
  "scan_header i [] st = Inr (st, None)"
| "scan_header i (line # rest) st =
     (case scan_line (py_strip line) st of
        Inl e \<Rightarrow> Inl e
      | Inr st' \<Rightarrow>
          if py_strip line = ''%%ENDHEADER'' then Inr (st', Some i)
          else scan_header (Suc i) rest st')"

text \<open>\<open>DataFrame.dropna(how="all")\<close>: a row is dropped when every cell of it is NA.\<close>

definition dropna_all :: "'a cell list list \<Rightarrow> 'a cell list list" where
  "dropna_all df = filter (\<lambda>row. \<not> list_all (\<lambda>c. c = NA) row) df"

text \<open>
  \<open>read_cel_file\<close>. The text is what \<open>path.read_text\<close> returned; \<open>name\<close> is the
  upper-cased stem of the path; \<open>read_csv skiprows names\<close> stands for the call
  \<open>pd.read_csv(path, sep=r"\s+", engine="python", skiprows=..., names=...)\<close> on the same
  file: the frame it returns, or \<open>None\<close> when it raises.
\<close>

definition read_cel_file ::
  "(nat \<Rightarrow> string list \<Rightarrow> 'a cell list list option) \<Rightarrow> string \<Rightarrow> string \<Rightarrow> error + 'a CelFile" where
  "read_cel_file read_csv name txt =
     (case scan_header 0 (take 800 (splitlines txt)) (None, []) of
        Inl e \<Rightarrow> Inl e
      | Inr ((flds, header_kv), endheader_idx) \<Rightarrow>
          (case flds of
             None \<Rightarrow> Inl ValueError_NoFields
           | Some fs \<Rightarrow>
               (case endheader_idx of
                  None \<Rightarrow> Inl ValueError_NoEndHeader
                | Some idx \<Rightarrow>
                    (case read_csv (idx + 1) fs of
                       None \<Rightarrow> Inl ReadCsvError
                     | Some df \<Rightarrow> CelFile_init name fs header_kv (dropna_all df)))))"

section \<open>Binary rate map files (\<open>rma_file.py\<close>)\<close>

text \<open>
  A byte is an 8-bit word. A 32-bit float is held as the 32-bit word of its IEEE-754
  encoding, so that decoding a big-endian float is reading the four bytes as one word;
  a signed 32-bit integer is the two's complement reading \<open>sint\<close> of that word.
\<close>

definition RMA_FILE_SIZE :: nat where
  "RMA_FILE_SIZE = 32768"

definition N_PIXELS :: nat where
  "N_PIXELS = 64 * 64"

record RmaFile =
  rate_map :: "32 word list list"
  occupancy_map :: "int list list"
  rma_session_type :: string
  cell_number :: "int option"

definition be_word :: "8 word list \<Rightarrow> 32 word" where
  "be_word bs = foldl (\<lambda>w b. push_bit 8 w + ucast b) 0 bs"

text \<open>\<open>np.frombuffer(data, dtype=">f4" or ">i4", count, offset)\<close>, as 32-bit words.\<close>

definition frombuffer :: "8 word list \<Rightarrow> nat \<Rightarrow> nat \<Rightarrow> error + 32 word list" where
  "frombuffer buf cnt offset =
     (if offset + 4 * cnt \<le> length buf
      then Inr (map (\<lambda>k. be_word (take 4 (drop (offset + 4 * k) buf))) [0..<cnt])
      else Inl ValueError_Buffer)"

text \<open>\<open>.reshape((64, 64))\<close>: row-major.\<close>

definition reshape :: "nat \<Rightarrow> nat \<Rightarrow> 'b list \<Rightarrow> 'b list list" where
  "reshape rows cols xs = map (\<lambda>i. take cols (drop (i * cols) xs)) [0..<rows]"

text \<open>\<open>_parse_rma_filename\<close>, given \<open>upper = name.upper()\<close>.\<close>

fun cell_match :: "string \<Rightarrow> string option" where
  "cell_match [] = None"
| "cell_match (c # cs) =
     (if take 5 (c # cs) = ''CELL~'' \<and> takeWhile is_digit (drop 5 (c # cs)) \<noteq> []
      then Some (takeWhile is_digit (drop 5 (c # cs)))
      else cell_match cs)"

definition parse_rma_filename :: "string \<Rightarrow> error + (string \<times> int option)" where
  "parse_rma_filename upper =
     (case (case cell_match upper of
              None \<Rightarrow> Inr None
            | Some ds \<Rightarrow> (case py_int ds of Inl e \<Rightarrow> Inl e | Inr n \<Rightarrow> Inr (Some n)))
      of
        Inl e \<Rightarrow> Inl e
      | Inr cell_no \<Rightarrow>
          Inr (if take 2 upper = ''ES'' then ''ES''
               else if take 2 upper = ''MC'' then ''MC''
               else if take 2 upper = ''BL'' then ''BL''
               else ''unknown'',
               cell_no))"

definition read_rma_file :: "string \<Rightarrow> 8 word list \<Rightarrow> error + RmaFile" where
  "read_rma_file upper buf =
     (if length buf \<noteq> RMA_FILE_SIZE then Inl (ValueError_Size (length buf))
      else
        (case frombuffer buf N_PIXELS 0 of
           Inl e \<Rightarrow> Inl e
         | Inr rates \<Rightarrow>
             (case frombuffer buf N_PIXELS (N_PIXELS * 4) of
                Inl e \<Rightarrow> Inl e
              | Inr occ \<Rightarrow>
                  (case parse_rma_filename upper of
                     Inl e \<Rightarrow> Inl e
                   | Inr (stype, cell_no) \<Rightarrow>
                       Inr \<lparr> rate_map = reshape 64 64 rates,
                             occupancy_map = reshape 64 64 (map sint occ),
                             rma_session_type = stype,
                             cell_number = cell_no \<rparr>))))"

section \<open>Session assembly (\<open>convert_session.py\<close>)\<close>

text \<open>
  The directory walk is given by its result: the tetrode directories in the order of
  \<open>tt_dirs\<close>, each with its name and, for its text files in sorted order, what
  \<open>read_cel_file\<close> returned or raised. The loop keeps what parsed and skips what raised.
\<close>

fun parse_dir :: "string \<Rightarrow> (error + 'a CelFile) list \<Rightarrow> (string \<times> 'a CelFile) list" where
  "parse_dir tt_name [] = []"
| "parse_dir tt_name (r # rs) =
     (case r of
        Inl e \<Rightarrow> parse_dir tt_name rs
      | Inr cel \<Rightarrow> (tt_name, cel) # parse_dir tt_name rs)"

definition parse_all ::
  "bool \<Rightarrow> (string \<times> (error + 'a CelFile) list) list \<Rightarrow> (string \<times> 'a CelFile) list" where
  "parse_all stub_test tt_dirs =
     concat (map (\<lambda>(tt_name, rs). parse_dir tt_name (if stub_test then take 2 rs else rs)) tt_dirs)"

subsection \<open>Epochs\<close>

text \<open>
  \<open>epoch_set\<close> is a dictionary used as a set: its keys, in insertion order. The test
  \<open>not np.isnan(key[0]) and not np.isnan(key[1])\<close> reads the start first and the end only
  when the start is not NaN. A time that is not NaN is a Python integer, which numpy takes
  as a signed or an unsigned 64-bit integer; for an integer outside both ranges
  \<open>np.isnan\<close> raises \<open>TypeError\<close>. A key enters only when neither time is NaN, so the
  keys are triples of two integers and the task type.
\<close>

definition np_int_ok :: "int \<Rightarrow> bool" where
  "np_int_ok t \<longleftrightarrow> - (2 ^ 63) \<le> t \<and> t < 2 ^ 64"

definition set_key :: "'k \<Rightarrow> 'k list \<Rightarrow> 'k list" where
  "set_key k d = (if k \<in> set d then d else d @ [k])"

fun epoch_set ::
  "(string \<times> 'a CelFile) list \<Rightarrow> (int \<times> int \<times> string) list \<Rightarrow>
     error + (int \<times> int \<times> string) list" where
  "epoch_set [] d = Inr d"
| "epoch_set ((tt_name, cel) # rest) d =
     (case start_time_sec cel of
        NaN \<Rightarrow> epoch_set rest d
      | Sec t0 \<Rightarrow>
          if \<not> np_int_ok t0 then Inl TypeError
          else
            (case end_time_sec cel of
               NaN \<Rightarrow> epoch_set rest d
             | Sec t1 \<Rightarrow>
                 if \<not> np_int_ok t1 then Inl TypeError
                 else epoch_set rest (set_key (t0, t1, session_type cel) d)))"

text \<open>
  The intervals are added in the order of \<open>sorted(epoch_set.keys())\<close>; \<open>float()\<close> of an
  integer that passed the test above does not fail.
\<close>

definition build_epochs ::
  "(string \<times> 'a CelFile) list \<Rightarrow> error + (int \<times> int \<times> string) list" where
  "build_epochs all_cel_files =
     (case epoch_set all_cel_files [] of
        Inl e \<Rightarrow> Inl e
      | Inr d \<Rightarrow> Inr (sort d))"

subsection \<open>Units\<close>

text \<open>\<open>arr[~np.isnan(arr)]\<close>.\<close>

fun drop_nan :: "'a option list \<Rightarrow> 'a list" where
  "drop_nan [] = []"
| "drop_nan (None # ts) = drop_nan ts"
| "drop_nan (Some v # ts) = v # drop_nan ts"

text \<open>\<open>d[k].append(v)\<close> on a \<open>defaultdict(list)\<close>, and reading \<open>d[k]\<close>.\<close>

fun dict_append :: "'k \<Rightarrow> 'v \<Rightarrow> ('k \<times> 'v list) list \<Rightarrow> ('k \<times> 'v list) list" where
  "dict_append k v [] = [(k, [v])]"
| "dict_append k v ((k', vs) # d) =
     (if k' = k then (k', vs @ [v]) # d else (k', vs) # dict_append k v d)"

definition dict_get :: "('k \<times> 'v list) list \<Rightarrow> 'k \<Rightarrow> 'v list" where
  "dict_get d k = (case map_of d k of None \<Rightarrow> [] | Some vs \<Rightarrow> vs)"

fun unit_spikes ::
  "(string \<times> ('a::linorder) CelFile) list \<Rightarrow> ((string \<times> int) \<times> 'a list list) list \<Rightarrow>
     error + ((string \<times> int) \<times> 'a list list) list" where
  "unit_spikes [] d = Inr d"
| "unit_spikes ((tt_name, cel) # rest) d =
     (case spike_times cel of
        Inl e \<Rightarrow> Inl e
      | Inr ts \<Rightarrow>
          if length (drop_nan ts) > 0
          then unit_spikes rest
                 (dict_append (tt_name, case cluster cel of None \<Rightarrow> - 1 | Some c \<Rightarrow> c) (drop_nan ts) d)
          else unit_spikes rest d)"

definition np_concatenate :: "'a list list \<Rightarrow> error + 'a list" where
  "np_concatenate arrs = (if arrs = [] then Inl ValueError_Concatenate else Inr (concat arrs))"

record 'a unit_row =
  unit_spike_times :: "'a list"
  tetrode :: string
  cluster_id :: int

fun add_units ::
  "(string \<times> int) list \<Rightarrow> ((string \<times> int) \<times> ('a::linorder) list list) list \<Rightarrow> error + 'a unit_row list" where
  "add_units [] d = Inr []"
| "add_units ((tt_name, cid) # ks) d =
     (case np_concatenate (dict_get d (tt_name, cid)) of
        Inl e \<Rightarrow> Inl e
      | Inr xs \<Rightarrow>
          (case add_units ks d of
             Inl e \<Rightarrow> Inl e
           | Inr rows \<Rightarrow>
               Inr (\<lparr> unit_spike_times = sort xs, tetrode = tt_name, cluster_id = cid \<rparr> # rows)))"

definition build_units :: "(string \<times> ('a::linorder) CelFile) list \<Rightarrow> error + 'a unit_row list" where
  "build_units all_cel_files =
     (case unit_spikes all_cel_files [] of
        Inl e \<Rightarrow> Inl e
      | Inr d \<Rightarrow> add_units (sort (map fst d)) d)"

subsection \<open>Position trace (\<open>_add_position_data\<close>)\<close>

text \<open>
  The three arrays are columns of one frame and have one length, so masking each and
  zipping them is zipping them and keeping the triples without NaN.
\<close>

fun masked_zip ::
  "'a option list \<Rightarrow> 'a option list \<Rightarrow> 'a option list \<Rightarrow> ('a \<times> 'a \<times> 'a) list" where
  "masked_zip (Some t # ts) (Some x # xs) (Some y # ys) = (t, x, y) # masked_zip ts xs ys"
| "masked_zip (t # ts) (x # xs) (y # ys) = masked_zip ts xs ys"
| "masked_zip ts xs ys = []"

fun time_pos_pairs ::
  "(string \<times> 'a CelFile) list \<Rightarrow> ('a \<times> 'a \<times> 'a) list \<Rightarrow> error + ('a \<times> 'a \<times> 'a) list" where
  "time_pos_pairs [] acc = Inr acc"
| "time_pos_pairs ((tt_name, cel) # rest) acc =
     (if \<not> has_position cel then time_pos_pairs rest acc
      else
        (case spike_times cel of
           Inl e \<Rightarrow> Inl e
         | Inr tms \<Rightarrow>
             (case pos_x cel of
                Inl e \<Rightarrow> Inl e
              | Inr x \<Rightarrow>
                  (case pos_y cel of
                     Inl e \<Rightarrow> Inl e
                   | Inr y \<Rightarrow>
                       (case x of
                          None \<Rightarrow> time_pos_pairs rest acc
                        | Some xs \<Rightarrow>
                            (case y of
                               None \<Rightarrow> time_pos_pairs rest acc
                             | Some ys \<Rightarrow>
                                 time_pos_pairs rest (acc @ masked_zip tms xs ys)))))))"

text \<open>
  \<open>np.unique(ar, return_index=True)[1]\<close>: for each distinct value, in ascending order,
  the index of its first occurrence in \<open>ar\<close>. \<open>arr[idx]\<close> reads an array at a list of
  indices; those that \<open>np.unique\<close> returns are within the array.
\<close>

definition np_unique_index :: "('a::linorder) list \<Rightarrow> nat list" where
  "np_unique_index ar = map (index_of ar) (sorted_list_of_set (set ar))"

definition take_idx :: "'b list \<Rightarrow> nat list \<Rightarrow> 'b list" where
  "take_idx arr idx = map (\<lambda>i. arr ! i) idx"

record 'a position =
  timestamps :: "'a list"
  xy :: "('a \<times> 'a) list"

definition add_position_data ::
  "(string \<times> ('a::linorder) CelFile) list \<Rightarrow> error + 'a position option" where
  "add_position_data all_cel_files =
     (case time_pos_pairs all_cel_files [] of
        Inl e \<Rightarrow> Inl e
      | Inr pairs \<Rightarrow>
          if pairs = [] then Inr None
          else
            (let sorted_pairs = sort_key fst pairs;
                 times_arr = map fst sorted_pairs;
                 x_arr = map (\<lambda>p. fst (snd p)) sorted_pairs;
                 y_arr = map (\<lambda>p. snd (snd p)) sorted_pairs;
                 unique_idx = np_unique_index times_arr
             in Inr (Some \<lparr> timestamps = take_idx times_arr unique_idx,
                             xy = zip (take_idx x_arr unique_idx) (take_idx y_arr unique_idx) \<rparr>)))"

subsection \<open>Rate map table (\<open>_add_rate_maps\<close>)\<close>

record map_row =
  row_tetrode :: string
  source_file :: string
  row_session_type :: string
  row_cell_number :: int
  row_rate_map :: "32 word list list"
  row_occupancy_map :: "int list list"

fun rma_rows :: "string \<Rightarrow> (string \<times> (error + RmaFile)) list \<Rightarrow> map_row list" where
  "rma_rows tt_name [] = []"
| "rma_rows tt_name ((fname, r) # rs) =
     (case r of
        Inl e \<Rightarrow> rma_rows tt_name rs
      | Inr rma \<Rightarrow>
          \<lparr> row_tetrode = tt_name, source_file = fname,
            row_session_type = rma_session_type rma,
            row_cell_number = (case cell_number rma of None \<Rightarrow> - 1 | Some n \<Rightarrow> n),
            row_rate_map = rate_map rma, row_occupancy_map = occupancy_map rma \<rparr>
          # rma_rows tt_name rs)"

definition add_rate_maps ::
  "bool \<Rightarrow> (string \<times> (string \<times> (error + RmaFile)) list) list \<Rightarrow> map_row list" where
  "add_rate_maps stub_test tt_dirs =
     concat (map (\<lambda>(tt_name, rs). rma_rows tt_name (if stub_test then take 2 rs else rs)) tt_dirs)"

subsection \<open>\<open>convert_session\<close>\<close>

text \<open>
  What the session hands to the writer: the epochs, the unit rows, the position trace (if
  one is added) and the rows of the rate map table (none when the analysed directory is
  absent or holds no readable map). The electrode indices of a unit row and the
  description column of an epoch depend on the tetrode name and the task type alone and
  are not carried. The steps run in the order of the source, the epochs before the units,
  and the first that raises ends the run.
\<close>

record 'a session =
  epochs :: "(int \<times> int \<times> string) list"
  units :: "'a unit_row list"
  position_trace :: "'a position option"
  rate_maps :: "map_row list"

definition convert_session ::
  "bool \<Rightarrow> (string \<times> (error + ('a::linorder) CelFile) list) list \<Rightarrow>
     (string \<times> (string \<times> (error + RmaFile)) list) list option \<Rightarrow> error + 'a session" where
  "convert_session stub_test tt_dirs analyzed =
     (let all_cel_files = parse_all stub_test tt_dirs in
      case build_epochs all_cel_files of
        Inl e \<Rightarrow> Inl e
      | Inr eps \<Rightarrow>
          (case build_units all_cel_files of
             Inl e \<Rightarrow> Inl e
           | Inr us \<Rightarrow>
               (case (if list_ex (\<lambda>(tt_name, cel). has_position cel) all_cel_files
                      then add_position_data all_cel_files else Inr None) of
                  Inl e \<Rightarrow> Inl e
                | Inr pos \<Rightarrow>
                    Inr \<lparr> epochs = eps,
                          units = us,
                          position_trace = pos,
                          rate_maps = (case analyzed of None \<Rightarrow> []
                                       | Some ds \<Rightarrow> add_rate_maps stub_test ds) \<rparr>)))"

section \<open>Reference definitions for the properties\<close>

text \<open>
  The clock-string policy: the components are those of the trimmed string, split on the
  colon; the sentinel when the string is empty, when a component is not an integer or
  when there are neither two nor three components.
\<close>

definition int_of :: "string \<Rightarrow> int" where
  "int_of c = (case py_int c of Inl e \<Rightarrow> 0 | Inr n \<Rightarrow> n)"

definition time_codec :: "string \<Rightarrow> seconds" where
  "time_codec s =
     (let comps = py_split CHR '':'' (py_strip s) in
      if s = [] \<or> list_ex (\<lambda>c. isl (py_int c)) comps \<or> (length comps \<noteq> 2 \<and> length comps \<noteq> 3)
      then NaN
      else if length comps = 3
        then Sec (int_of (comps ! 0) * 3600 + int_of (comps ! 1) * 60 + int_of (comps ! 2))
        else Sec (int_of (comps ! 0) * 60 + int_of (comps ! 1)))"

text \<open>
  The big-endian 32-bit value of four bytes and of the four bytes at an offset of a
  buffer, and the encoder that writes two 64 by 64 matrices as the file layout has them.
\<close>

definition be_decode :: "8 word \<Rightarrow> 8 word \<Rightarrow> 8 word \<Rightarrow> 8 word \<Rightarrow> 32 word" where
  "be_decode b0 b1 b2 b3 =
     word_of_nat (unat b0 * 2 ^ 24 + unat b1 * 2 ^ 16 + unat b2 * 2 ^ 8 + unat b3)"

definition be_at :: "8 word list \<Rightarrow> nat \<Rightarrow> 32 word" where
  "be_at buf k = be_decode (buf ! k) (buf ! (k + 1)) (buf ! (k + 2)) (buf ! (k + 3))"

definition square64 :: "'b list list \<Rightarrow> bool" where
  "square64 m \<longleftrightarrow> length m = 64 \<and> list_all (\<lambda>r. length r = 64) m"

definition int32_range :: "int \<Rightarrow> bool" where
  "int32_range n \<longleftrightarrow> - (2 ^ 31) \<le> n \<and> n < 2 ^ 31"

definition be_bytes :: "32 word \<Rightarrow> 8 word list" where
  "be_bytes w = [ucast (drop_bit 24 w), ucast (drop_bit 16 w), ucast (drop_bit 8 w), ucast w]"

definition encode_rma :: "32 word list list \<Rightarrow> int list list \<Rightarrow> 8 word list" where
  "encode_rma rates occ =
     concat (map be_bytes (concat rates)) @ concat (map be_bytes (map word_of_int (concat occ)))"

text \<open>Two patterns for the round trip: 1.5 and -42.0 as floats, -7 and the largest integer.\<close>

definition rates_pattern :: "32 word list list" where
  "rates_pattern =
     (0x3FC00000 # replicate 63 0) # replicate 62 (replicate 64 0) @ [replicate 63 0 @ [0xC2280000]]"

definition occ_pattern :: "int list list" where
  "occ_pattern =
     (- 7 # replicate 63 0) # replicate 62 (replicate 64 0) @ [replicate 63 0 @ [2147483647]]"

text \<open>
  The header scan in the words of the specification: which lines end the header, which
  declare the fields, and the window the scan reads: the first 800 lines, cut after the
  first line that ends the header. Both tests are made on the trimmed line, as the source
  makes them.
\<close>

definition is_endheader :: "string \<Rightarrow> bool" where
  "is_endheader line \<longleftrightarrow> py_strip line = ''%%ENDHEADER''"

definition is_fields_line :: "string \<Rightarrow> bool" where
  "is_fields_line line \<longleftrightarrow> fields_match (py_strip line)"

definition window :: "string list \<Rightarrow> string list" where
  "window ls =
     takeWhile (\<lambda>l. \<not> is_endheader l) ls @ take 1 (dropWhile (\<lambda>l. \<not> is_endheader l) ls)"

definition scan_window :: "string \<Rightarrow> string list" where
  "scan_window txt = window (take 800 (splitlines txt))"

text \<open>
  What the row table is read from: the index of the end-of-header line among the first
  800 lines; the names a fields line declares, the words after its first colon; and the
  field list of a file, that of the last fields line of the scan window. The rows kept
  are those with a cell that is not NA. A column read with coercion has, for each row,
  the number of the cell when the cell is a number and NaN otherwise.
\<close>

definition endheader_index :: "string \<Rightarrow> nat" where
  "endheader_index txt =
     length (takeWhile (\<lambda>l. \<not> is_endheader l) (take 800 (splitlines txt)))"

definition fields_of_line :: "string \<Rightarrow> string list" where
  "fields_of_line line =
     py_split_ws (py_strip (tl (dropWhile (\<lambda>c. c \<noteq> CHR '':'') (py_strip line))))"

definition declared_fields :: "string \<Rightarrow> string list" where
  "declared_fields txt = fields_of_line (last (filter is_fields_line (scan_window txt)))"

definition kept_rows :: "'a cell list list \<Rightarrow> 'a cell list list" where
  "kept_rows df = filter (\<lambda>row. \<exists>c\<in>set row. c \<noteq> NA) df"

definition coerced :: "string list \<Rightarrow> string \<Rightarrow> 'a cell list list \<Rightarrow> 'a option list" where
  "coerced fs name rows =
     map (\<lambda>row. case cell_at row (index_of fs name) of
                   Num v \<Rightarrow> Some v | NA \<Rightarrow> None | Txt s \<Rightarrow> None) rows"


text \<open>
  The records on which the test of the epoch loop raises nothing: the start is the
  sentinel, or it is an integer numpy takes and the end is the sentinel or such an
  integer.
\<close>

definition epoch_ok :: "string \<times> 'a CelFile \<Rightarrow> bool" where
  "epoch_ok f =
     (case start_time_sec (snd f) of
        NaN \<Rightarrow> True
      | Sec t0 \<Rightarrow>
          np_int_ok t0 \<and> (case end_time_sec (snd f) of NaN \<Rightarrow> True | Sec t1 \<Rightarrow> np_int_ok t1))"

definition unit_key :: "string \<times> 'a CelFile \<Rightarrow> string \<times> int" where
  "unit_key f = (fst f, case cluster (snd f) of None \<Rightarrow> - 1 | Some c \<Rightarrow> c)"

definition valid_spike_times :: "'a CelFile \<Rightarrow> 'a list" where
  "valid_spike_times cel = (case spike_times cel of Inl e \<Rightarrow> [] | Inr ts \<Rightarrow> drop_nan ts)"

definition group_times :: "(string \<times> 'a CelFile) list \<Rightarrow> string \<times> int \<Rightarrow> 'a list" where
  "group_times files k =
     concat (map (\<lambda>f. valid_spike_times (snd f)) (filter (\<lambda>f. unit_key f = k) files))"

definition row_key :: "'a unit_row \<Rightarrow> string \<times> int" where
  "row_key r = (tetrode r, cluster_id r)"

definition has_time :: "string \<times> 'a CelFile \<Rightarrow> bool" where
  "has_time f \<longleftrightarrow> ''time'' \<in> set (fields_list (snd f))"

text \<open>
  Helpers for the unit merge: the arrays the records of a list append to the entry of a
  key, the keys that get an entry, and the unit row of a key.
\<close>

definition group_arrays :: "(string \<times> 'a CelFile) list \<Rightarrow> string \<times> int \<Rightarrow> 'a list list" where
  "group_arrays files k =
     filter (\<lambda>a. a \<noteq> []) (map (\<lambda>f. valid_spike_times (snd f)) (filter (\<lambda>f. unit_key f = k) files))"

definition group_keys :: "(string \<times> 'a CelFile) list \<Rightarrow> (string \<times> int) set" where
  "group_keys files = {k. group_times files k \<noteq> []}"

definition unit_of :: "(string \<times> ('a::linorder) CelFile) list \<Rightarrow> string \<times> int \<Rightarrow> 'a unit_row" where
  "unit_of files k =
     \<lparr> unit_spike_times = sort (group_times files k), tetrode = fst k, cluster_id = snd k \<rparr>"

text \<open>
  The position samples of a record: its rows, in order, in which the time and both
  coordinates are numbers. The pool: the samples of the position-bearing records, one
  record after the other in the order of the file list (tetrode directories in traversal
  order, file names sorted within each), rows in file order. A position-bearing record can
  be pooled when it has the three columns.
\<close>

definition sample_of :: "'a CelFile \<Rightarrow> 'a cell list \<Rightarrow> ('a \<times> 'a \<times> 'a) list" where
  "sample_of cel row =
     (case (cell_at row (index_of (fields_list cel) ''time''),
            cell_at row (index_of (fields_list cel) ''pos_x''),
            cell_at row (index_of (fields_list cel) ''pos_y'')) of
        (Num t, Num x, Num y) \<Rightarrow> [(t, x, y)]
      | _ \<Rightarrow> [])"

definition valid_samples :: "'a CelFile \<Rightarrow> ('a \<times> 'a \<times> 'a) list" where
  "valid_samples cel = concat (map (sample_of cel) (data cel))"

definition pooled :: "(string \<times> 'a CelFile) list \<Rightarrow> ('a \<times> 'a \<times> 'a) list" where
  "pooled files =
     concat (map (\<lambda>f. valid_samples (snd f)) (filter (\<lambda>f. has_position (snd f)) files))"

definition pos_ok :: "string \<times> 'a CelFile \<Rightarrow> bool" where
  "pos_ok f \<longleftrightarrow>
     \<not> has_position (snd f) \<or>
     (''time'' \<in> set (fields_list (snd f)) \<and> ''pos_x'' \<in> set (fields_list (snd f)) \<and>
      ''pos_y'' \<in> set (fields_list (snd f)))"

definition trace_of :: "'a position \<Rightarrow> ('a \<times> 'a \<times> 'a) list" where
  "trace_of pos = zip (timestamps pos) (xy pos)"

text \<open>The first element of a list of pairs whose first component is \<open>v\<close>.\<close>

definition first_with :: "'a \<Rightarrow> ('a \<times> 'b) list \<Rightarrow> 'a \<times> 'b" where
  "first_with v xs = xs ! index_of (map fst xs) v"

text \<open>
  Example files, each with what \<open>read_csv\<close> returns on it. The first has its
  end-of-header line indented. The second has a data row whose only token is not a
  number, a row whose only token is an NA spelling and a numeric row. The third has no
  \<open>time\<close> column.
\<close>

definition txt_indented :: string where
  "txt_indented = ''%Cluster: 3\<newline>%Fields: time\<newline> %%ENDHEADER\<newline>1.0\<newline>''"

definition csv_indented :: "nat \<Rightarrow> string list \<Rightarrow> real cell list list option" where
  "csv_indented skiprows names =
     (if skiprows = 3 \<and> names = [''time''] then Some [[Num 1]] else None)"

definition txt_text_row :: string where
  "txt_text_row = ''%Fields: time\<newline>%%ENDHEADER\<newline>abc\<newline>NaN\<newline>2.5\<newline>''"

definition csv_text_row :: "nat \<Rightarrow> string list \<Rightarrow> real cell list list option" where
  "csv_text_row skiprows names =
     (if skiprows = 2 \<and> names = [''time'']
      then Some [[Txt ''abc''], [NA], [Num 2.5]] else None)"

text \<open>
  A file with a time and two position columns: a row with a token that is not a number,
  a row of NA spellings and a numeric row.
\<close>

definition txt_pos_rows :: string where
  "txt_pos_rows = ''%Fields: time pos_x pos_y\<newline>%%ENDHEADER\<newline>1.0 abc 3\<newline>NaN NaN NaN\<newline>2.5 4 5\<newline>''"

definition csv_pos_rows :: "nat \<Rightarrow> string list \<Rightarrow> real cell list list option" where
  "csv_pos_rows skiprows names =
     (if skiprows = 2 \<and> names = [''time'', ''pos_x'', ''pos_y'']
      then Some [[Num 1, Txt ''abc'', Num 3], [NA, NA, NA], [Num 2.5, Num 4, Num 5]]
      else None)"

definition txt_no_time :: string where
  "txt_no_time = ''%Cluster: 1\<newline>%Fields: pos_x pos_y\<newline>%%ENDHEADER\<newline>10 20\<newline>''"

definition csv_no_time :: "nat \<Rightarrow> string list \<Rightarrow> real cell list list option" where
  "csv_no_time skiprows names =
     (if skiprows = 3 \<and> names = [''pos_x'', ''pos_y''] then Some [[Num 10, Num 20]] else None)"

definition txt_spikes :: string where
  "txt_spikes = ''%Cluster: 3\<newline>%Start time: 0:00\<newline>%End time: 10:00\<newline>%Fields: time\<newline>%%ENDHEADER\<newline>1.0\<newline>3.0\<newline>''"

definition csv_spikes :: "nat \<Rightarrow> string list \<Rightarrow> real cell list list option" where
  "csv_spikes skiprows names =
     (if skiprows = 5 \<and> names = [''time''] then Some [[Num 1], [Num 3]] else None)"

text \<open>Example records for the merges, built by one helper from the fields that matter.\<close>

definition cel_of ::
  "string list \<Rightarrow> real cell list list \<Rightarrow> int option \<Rightarrow> seconds \<Rightarrow> seconds \<Rightarrow> string \<Rightarrow> real CelFile" where
  "cel_of fs df cl t0 t1 stype =
     \<lparr> fields_list = fs, header = [], data = df, cluster = cl, session_type = stype,
       start_time_sec = t0, end_time_sec = t1,
       has_position = (''pos_x'' \<in> set fs \<and> ''pos_y'' \<in> set fs) \<rparr>"


definition unit_files :: "(string \<times> real CelFile) list" where
  "unit_files =
     [(''TT2'', cel_of [''time''] [[Num 4]] (Some 0) NaN NaN ''BL''),
      (''TT0'', cel_of [''time''] [[Num 1], [Num 3]] (Some 3) NaN NaN ''BL''),
      (''TT10'', cel_of [''time''] [[Num 5], [Txt ''x''], [Num 5]] None NaN NaN ''ES''),
      (''TT0'', cel_of [''time''] [[Num 2], [NA]] (Some 3) NaN NaN ''ES'')]"

definition unit_files_empty :: "(string \<times> real CelFile) list" where
  "unit_files_empty =
     [(''TT0'', cel_of [''time'', ''pos_x''] [[NA, Num 1], [Txt ''x'', Num 2]] (Some 4) NaN NaN ''BL''),
      (''TT1'', cel_of [''time''] [[Num 7]] (Some 2) NaN NaN ''BL'')]"

definition position_files :: "(string \<times> real CelFile) list" where
  "position_files =
     [(''TT0'', cel_of [''time'', ''pos_x'', ''pos_y'']
                  [[Num 5, Num 1, Num 2], [Num 3, Num 7], [Num 9, Num 9, Num 9]] (Some 1) NaN NaN ''ES''),
      (''TT0'', cel_of [''time''] [[Num 1]] (Some 2) NaN NaN ''ES''),
      (''TT1'', cel_of [''pos_y'', ''time'', ''pos_x'']
                  [[Num 9, Num 5, Num 8], [Num 3, Num 4, Num 4]] (Some 1) NaN NaN ''ES'')]"

section \<open>Clock strings: proofs\<close>

lemma py_int_error: "py_int p = Inl e \<Longrightarrow> e = ValueError_Int"
  by (auto simp: py_int_def Let_def split: if_splits)

lemma int_all_char:
  "int_all ps = (if list_ex (\<lambda>c. isl (py_int c)) ps then Inl ValueError_Int else Inr (map int_of ps))"
proof (induction ps)
  case Nil
  then show ?case by simp
next
  case (Cons p ps)
  show ?case
  proof (cases "py_int p")
    case (Inl e)
    then show ?thesis using py_int_error[OF Inl] by simp
  next
    case (Inr n)
    then show ?thesis using Cons by (simp add: int_of_def)
  qed
qed

lemma colon_not_space: "\<not> py_isspace CHR '':''"
  by (simp add: py_isspace_def)

lemma parse_time_str_total: "parse_time_str s = Inr (time_codec s)"
proof (cases "list_ex (\<lambda>c. isl (py_int c)) (py_split CHR '':'' (py_strip s))")
  case True
  then have "int_all (py_split CHR '':'' (py_strip s)) = Inl ValueError_Int"
    by (simp add: int_all_char)
  then show ?thesis using True
    by (simp add: parse_time_str_def time_codec_def Let_def)
next
  case False
  then have "int_all (py_split CHR '':'' (py_strip s)) =
               Inr (map int_of (py_split CHR '':'' (py_strip s)))"
    by (simp add: int_all_char)
  then show ?thesis using False
    by (simp add: parse_time_str_def time_codec_def Let_def)
qed

text \<open>
  Claim C6, as stated: the result is obtained by splitting the input on the colon, and a
  component that does not parse as an integer gives the sentinel. The source trims the
  string before it splits it, and \<open>str.strip\<close> removes more than \<open>int()\<close> ignores. On
  the string made of the separator \<open>0x1C\<close> followed by \<open>1:02\<close> the first of the two
  components of the input is that separator followed by \<open>1\<close>, which \<open>int()\<close> refuses, and
  the result is 62, not the sentinel.
\<close>

theorem parse_time_str_trims_first:
  "parse_time_str (CHR 0x1C # ''1:02'') = Inr (Sec 62) \<and>
   py_split CHR '':'' (CHR 0x1C # ''1:02'') = [CHR 0x1C # ''1'', ''02''] \<and>
   py_int (CHR 0x1C # ''1'') = Inl ValueError_Int"
proof -
  have a: "parse_time_str (CHR 0x1C # ''1:02'') = Inr (Sec 62)" by code_simp
  have b: "py_split CHR '':'' (CHR 0x1C # ''1:02'') = [CHR 0x1C # ''1'', ''02'']" by code_simp
  have c: "py_int (CHR 0x1C # ''1'') = Inl ValueError_Int" by code_simp
  show ?thesis using a b c by simp
qed

text \<open>
  Claim C6, amended. For every input string, \<open>_parse_time_str\<close> returns a value and
  raises nothing, and the value is the one the policy prescribes once the components are
  those of the string with its surrounding white space trimmed: the sentinel for the
  empty string, for a string with a component that is not an integer and for a component
  count other than two or three; hours, minutes and seconds, or minutes and seconds, added
  up otherwise. The four inputs the specification names give 3723, 123 and twice the
  sentinel.
\<close>

theorem parse_time_str_policy:
  "parse_time_str s = Inr (time_codec s) \<and>
   parse_time_str ''1:02:03'' = Inr (Sec 3723) \<and>
   parse_time_str ''02:03'' = Inr (Sec 123) \<and>
   parse_time_str [] = Inr NaN \<and>
   parse_time_str ''ab:01'' = Inr NaN"
proof -
  have e1: "parse_time_str ''1:02:03'' = Inr (Sec 3723)" by code_simp
  have e2: "parse_time_str ''02:03'' = Inr (Sec 123)" by code_simp
  have e3: "parse_time_str [] = Inr NaN" by code_simp
  have e4: "parse_time_str ''ab:01'' = Inr NaN" by code_simp
  show ?thesis using parse_time_str_total[of s] e1 e2 e3 e4 by simp
qed

theorem parse_time_str_policy_witness:
  "parse_time_str '' 0:10:07'' = Inr (Sec 607) \<and> time_codec '' 0:10:07'' = Sec 607"
proof -
  have v: "time_codec '' 0:10:07'' = Sec 607" by code_simp
  show ?thesis using parse_time_str_policy[of "'' 0:10:07''"] v by simp
qed

section \<open>Text files: proofs\<close>

lemma in_dropWhile: "x \<in> set s \<Longrightarrow> \<not> P x \<Longrightarrow> x \<in> set (dropWhile P s)"
  by (induction s) auto

lemma in_strip: "x \<in> set s \<Longrightarrow> \<not> py_isspace x \<Longrightarrow> x \<in> set (py_strip s)"
  unfolding py_strip_def py_rstrip_def py_lstrip_def
  by (simp add: in_dropWhile)

lemma fields_match_colon: "fields_match s \<Longrightarrow> CHR '':'' \<in> set s"
proof -
  assume a: "fields_match s"
  define r where "r = (case s of [] \<Rightarrow> [] | c # t \<Rightarrow> if c = CHR ''%'' then t else s)"
  define r1 where "r1 = dropWhile py_isspace r"
  have "fields_match s = (map ascii_lower (take 6 r1) = ''fields'' \<and>
          (case dropWhile py_isspace (drop 6 r1) of [] \<Rightarrow> False | c # t \<Rightarrow> c = CHR '':''))"
    unfolding fields_match_def Let_def r_def r1_def by (rule refl)
  then have c: "(case dropWhile py_isspace (drop 6 r1) of [] \<Rightarrow> False | c # t \<Rightarrow> c = CHR '':'')"
    using a by blast
  then obtain t where "dropWhile py_isspace (drop 6 r1) = CHR '':'' # t"
    by (cases "dropWhile py_isspace (drop 6 r1)") auto
  then have "CHR '':'' \<in> set (dropWhile py_isspace (drop 6 r1))"
    by simp
  then have "CHR '':'' \<in> set r1"
    by (meson in_set_dropD set_dropWhileD)
  then have "CHR '':'' \<in> set r" unfolding r1_def by (meson set_dropWhileD)
  then show ?thesis unfolding r_def by (auto split: list.splits if_splits)
qed

lemma split1_two: "sep \<in> set s \<Longrightarrow> \<exists>k v. py_split1 sep s = [k, v]"
  by (simp add: py_split1_def)

lemma scan_line_ok:
  "\<exists>hdr'. scan_line s (flds, hdr) =
      Inr (if fields_match s
           then Some (py_split_ws (py_strip (tl (dropWhile (\<lambda>c. c \<noteq> CHR '':'') s))))
           else flds, hdr')"
proof -
  have kv: "take 1 s = ''%'' \<and> CHR '':'' \<in> set s \<and> \<not> fields_match s \<Longrightarrow>
        \<exists>k v. py_split1 CHR '':'' (py_strip (dropWhile (\<lambda>c. c = CHR ''%'') s)) = [k, v]"
    by (intro split1_two in_strip in_dropWhile) (auto simp: colon_not_space)
  have fm: "fields_match s \<Longrightarrow> py_split1 CHR '':'' s = [takeWhile (\<lambda>c. c \<noteq> CHR '':'') s, tl (dropWhile (\<lambda>c. c \<noteq> CHR '':'') s)]"
    using fields_match_colon[of s] by (simp add: py_split1_def)
  show ?thesis
  proof (cases "take 1 s = ''%'' \<and> CHR '':'' \<in> set s \<and> \<not> fields_match s")
    case True
    then obtain k v where "py_split1 CHR '':'' (py_strip (dropWhile (\<lambda>c. c = CHR ''%'') s)) = [k, v]"
      using kv by blast
    then show ?thesis using True by (simp add: scan_line_def)
  next
    case False
    then show ?thesis using fm by (auto simp: scan_line_def)
  qed
qed

lemma scan_header_char:
  "\<exists>flds' hdr' eidx. scan_header i ls (flds, hdr) = Inr ((flds', hdr'), eidx) \<and>
      (flds' = None \<longleftrightarrow> flds = None \<and> \<not> list_ex is_fields_line (window ls)) \<and>
      (eidx = None \<longleftrightarrow> \<not> list_ex is_endheader ls)"
proof (induction ls arbitrary: i flds hdr)
  case Nil
  then show ?case by (simp add: window_def)
next
  case (Cons line rest)
  obtain hdr1 where sl: "scan_line (py_strip line) (flds, hdr) =
      Inr (if fields_match (py_strip line)
           then Some (py_split_ws (py_strip (tl (dropWhile (\<lambda>c. c \<noteq> CHR '':'') (py_strip line)))))
           else flds, hdr1)"
    using scan_line_ok by blast
  show ?case
  proof (cases "is_endheader line")
    case True
    then have w: "window (line # rest) = [line]" by (simp add: window_def)
    show ?thesis using True sl
      by (auto simp: w is_endheader_def is_fields_line_def)
  next
    case False
    then have w: "window (line # rest) = line # window rest" by (simp add: window_def)
    let ?f1 = "if fields_match (py_strip line)
           then Some (py_split_ws (py_strip (tl (dropWhile (\<lambda>c. c \<noteq> CHR '':'') (py_strip line)))))
           else flds"
    obtain flds' hdr' eidx where ih: "scan_header (Suc i) rest (?f1, hdr1) = Inr ((flds', hdr'), eidx)"
      "flds' = None \<longleftrightarrow> ?f1 = None \<and> \<not> list_ex is_fields_line (window rest)"
      "eidx = None \<longleftrightarrow> \<not> list_ex is_endheader rest"
      using Cons.IH[of "Suc i" ?f1 hdr1] by blast
    have "scan_header i (line # rest) (flds, hdr) = Inr ((flds', hdr'), eidx)"
      using False sl ih(1) by (simp add: is_endheader_def)
    moreover have "flds' = None \<longleftrightarrow> flds = None \<and> \<not> list_ex is_fields_line (window (line # rest))"
      using ih(2) by (auto simp: w is_fields_line_def)
    moreover have "eidx = None \<longleftrightarrow> \<not> list_ex is_endheader (line # rest)"
      using ih(3) False by simp
    ultimately show ?thesis by blast
  qed
qed


lemma CelFile_init_error: "CelFile_init name fs hdr df = Inl e \<Longrightarrow> e = ValueError_Int"
  by (auto simp: CelFile_init_def parse_cluster_def Let_def parse_time_str_total
           split: sum.splits if_splits dest: py_int_error)

lemma CelFile_init_fields:
  "CelFile_init name fs hdr df = Inr cel \<Longrightarrow>
     fields_list cel = fs \<and> data cel = df \<and> header cel = hdr \<and>
     has_position cel = (''pos_x'' \<in> set fs \<and> ''pos_y'' \<in> set fs)"
  by (auto simp: CelFile_init_def parse_time_str_total split: sum.splits)

lemma read_cel_file_cases:
  "\<exists>flds hdr eidx.
     (flds = None \<longleftrightarrow> \<not> list_ex is_fields_line (scan_window txt)) \<and>
     (eidx = None \<longleftrightarrow> \<not> list_ex is_endheader (take 800 (splitlines txt))) \<and>
     read_cel_file read_csv name txt =
       (case flds of
          None \<Rightarrow> Inl ValueError_NoFields
        | Some fs \<Rightarrow>
            (case eidx of
               None \<Rightarrow> Inl ValueError_NoEndHeader
             | Some idx \<Rightarrow>
                 (case read_csv (idx + 1) fs of
                    None \<Rightarrow> Inl ReadCsvError
                  | Some df \<Rightarrow> CelFile_init name fs hdr (dropna_all df))))"
proof -
  obtain flds hdr eidx where
    sc: "scan_header 0 (take 800 (splitlines txt)) (None, []) = Inr ((flds, hdr), eidx)"
    and f: "flds = None \<longleftrightarrow> \<not> list_ex is_fields_line (window (take 800 (splitlines txt)))"
    and e: "eidx = None \<longleftrightarrow> \<not> list_ex is_endheader (take 800 (splitlines txt))"
    using scan_header_char[of 0 "take 800 (splitlines txt)" None "[]"] by auto
  have "read_cel_file read_csv name txt =
       (case flds of
          None \<Rightarrow> Inl ValueError_NoFields
        | Some fs \<Rightarrow>
            (case eidx of
               None \<Rightarrow> Inl ValueError_NoEndHeader
             | Some idx \<Rightarrow>
                 (case read_csv (idx + 1) fs of
                    None \<Rightarrow> Inl ReadCsvError
                  | Some df \<Rightarrow> CelFile_init name fs hdr (dropna_all df))))"
    by (simp add: read_cel_file_def sc)
  then show ?thesis using f e unfolding scan_window_def by blast
qed

lemma scan_header_exact:
  "\<exists>flds' hdr' eidx. scan_header i ls (flds, hdr) = Inr ((flds', hdr'), eidx) \<and>
      flds' = (if list_ex is_fields_line (window ls)
               then Some (fields_of_line (last (filter is_fields_line (window ls))))
               else flds) \<and>
      eidx = (if list_ex is_endheader ls
              then Some (i + length (takeWhile (\<lambda>l. \<not> is_endheader l) ls))
              else None)"
proof (induction ls arbitrary: i flds hdr)
  case Nil
  then show ?case by (simp add: window_def)
next
  case (Cons line rest)
  let ?f1 = "if is_fields_line line then Some (fields_of_line line) else flds"
  obtain hdr1 where sl: "scan_line (py_strip line) (flds, hdr) = Inr (?f1, hdr1)"
    using scan_line_ok[of "py_strip line" flds hdr]
    unfolding is_fields_line_def fields_of_line_def by blast
  show ?case
  proof (cases "is_endheader line")
    case True
    then have w: "window (line # rest) = [line]" by (simp add: window_def)
    have "scan_header i (line # rest) (flds, hdr) = Inr ((?f1, hdr1), Some i)"
      using True sl by (simp add: is_endheader_def)
    then show ?thesis using True by (simp add: w)
  next
    case False
    then have w: "window (line # rest) = line # window rest" by (simp add: window_def)
    obtain flds' hdr' eidx where ih: "scan_header (Suc i) rest (?f1, hdr1) = Inr ((flds', hdr'), eidx)"
      "flds' = (if list_ex is_fields_line (window rest)
               then Some (fields_of_line (last (filter is_fields_line (window rest))))
               else ?f1)"
      "eidx = (if list_ex is_endheader rest
              then Some (Suc i + length (takeWhile (\<lambda>l. \<not> is_endheader l) rest))
              else None)"
      using Cons.IH[of "Suc i" ?f1 hdr1] by blast
    have 1: "scan_header i (line # rest) (flds, hdr) = Inr ((flds', hdr'), eidx)"
      using False sl ih(1) by (simp add: is_endheader_def)
    have ne: "list_ex is_fields_line (window rest) \<longleftrightarrow> filter is_fields_line (window rest) \<noteq> []"
      by (simp add: list_ex_iff filter_empty_conv)
    have 2: "flds' = (if list_ex is_fields_line (window (line # rest))
               then Some (fields_of_line (last (filter is_fields_line (window (line # rest)))))
               else flds)"
    proof (cases "list_ex is_fields_line (window rest)")
      case True
      then show ?thesis using ih(2) ne by (simp add: w)
    next
      case False
      then have "filter is_fields_line (window rest) = []" using ne by simp
      then show ?thesis using ih(2) False by (simp add: w)
    qed
    have 3: "eidx = (if list_ex is_endheader (line # rest)
              then Some (i + length (takeWhile (\<lambda>l. \<not> is_endheader l) (line # rest)))
              else None)"
      using ih(3) False by simp
    show ?thesis using 1 2 3 by blast
  qed
qed

lemma read_cel_file_exact:
  assumes "read_cel_file read_csv name txt = Inr cel"
  shows "\<exists>df. read_csv (endheader_index txt + 1) (declared_fields txt) = Some df \<and>
              data cel = dropna_all df \<and> fields_list cel = declared_fields txt \<and>
              has_position cel =
                (''pos_x'' \<in> set (declared_fields txt) \<and> ''pos_y'' \<in> set (declared_fields txt))"
proof -
  let ?ls = "take 800 (splitlines txt)"
  obtain flds hdr eidx where
    sc: "scan_header 0 ?ls (None, []) = Inr ((flds, hdr), eidx)"
    and f: "flds = (if list_ex is_fields_line (window ?ls)
               then Some (fields_of_line (last (filter is_fields_line (window ?ls))))
               else None)"
    and e: "eidx = (if list_ex is_endheader ?ls
              then Some (0 + length (takeWhile (\<lambda>l. \<not> is_endheader l) ?ls))
              else None)"
    using scan_header_exact[of 0 ?ls None "[]"] by blast
  have r: "read_cel_file read_csv name txt =
       (case flds of
          None \<Rightarrow> Inl ValueError_NoFields
        | Some fs \<Rightarrow>
            (case eidx of
               None \<Rightarrow> Inl ValueError_NoEndHeader
             | Some idx \<Rightarrow>
                 (case read_csv (idx + 1) fs of
                    None \<Rightarrow> Inl ReadCsvError
                  | Some df \<Rightarrow> CelFile_init name fs hdr (dropna_all df))))"
    by (simp add: read_cel_file_def sc)
  from assms r obtain fs idx df where
    g: "flds = Some fs" "eidx = Some idx" "read_csv (idx + 1) fs = Some df"
       "CelFile_init name fs hdr (dropna_all df) = Inr cel"
    by (auto split: option.splits)
  have fs: "fs = declared_fields txt"
    using f g(1) by (simp add: declared_fields_def scan_window_def split: if_splits)
  have idx: "idx = endheader_index txt"
    using e g(2) by (simp add: endheader_index_def split: if_splits)
  show ?thesis
    using g(3) CelFile_init_fields[OF g(4)] unfolding fs idx by blast
qed

lemma dropna_all_kept_rows: "dropna_all df = kept_rows df"
  by (simp add: dropna_all_def kept_rows_def list_all_iff)

lemma to_numeric_coerced:
  "map (\<lambda>row. to_numeric (cell_at row (index_of fs name))) rows = coerced fs name rows"
proof -
  have tn: "to_numeric c = (case c of Num v \<Rightarrow> Some v | NA \<Rightarrow> None | Txt s \<Rightarrow> None)"
    for c :: "'a cell"
    by (cases c) simp_all
  show ?thesis by (simp add: coerced_def tn)
qed

text \<open>
  Claim C5, amended. The parse fails for want of a fields line exactly when no line of the
  scan window declares the fields; when one does, it fails for want of the end of the
  header exactly when none of the first 800 lines is the sentinel; when a fields line and
  the sentinel both occur, it raises neither error. A line is the sentinel when it equals
  \<open>%%ENDHEADER\<close> after its surrounding white space is trimmed, not only when it equals
  it as it stands.
\<close>

theorem read_cel_file_header_errors:
  "(read_cel_file read_csv name txt = Inl ValueError_NoFields \<longleftrightarrow>
      \<not> list_ex is_fields_line (scan_window txt)) \<and>
   (list_ex is_fields_line (scan_window txt) \<longrightarrow>
      (read_cel_file read_csv name txt = Inl ValueError_NoEndHeader \<longleftrightarrow>
         \<not> list_ex is_endheader (take 800 (splitlines txt)))) \<and>
   (list_ex is_fields_line (scan_window txt) \<and> list_ex is_endheader (take 800 (splitlines txt)) \<longrightarrow>
      read_cel_file read_csv name txt \<noteq> Inl ValueError_NoFields \<and>
      read_cel_file read_csv name txt \<noteq> Inl ValueError_NoEndHeader)"
proof -
  obtain flds hdr eidx where
    f: "flds = None \<longleftrightarrow> \<not> list_ex is_fields_line (scan_window txt)"
    and e: "eidx = None \<longleftrightarrow> \<not> list_ex is_endheader (take 800 (splitlines txt))"
    and r: "read_cel_file read_csv name txt =
       (case flds of
          None \<Rightarrow> Inl ValueError_NoFields
        | Some fs \<Rightarrow>
            (case eidx of
               None \<Rightarrow> Inl ValueError_NoEndHeader
             | Some idx \<Rightarrow>
                 (case read_csv (idx + 1) fs of
                    None \<Rightarrow> Inl ReadCsvError
                  | Some df \<Rightarrow> CelFile_init name fs hdr (dropna_all df))))"
    using read_cel_file_cases[of "txt" read_csv name] by blast
  have init: "CelFile_init name fs hdr df \<noteq> Inl ValueError_NoFields \<and>
              CelFile_init name fs hdr df \<noteq> Inl ValueError_NoEndHeader" for fs df
    using CelFile_init_error[of name fs hdr df] by auto
  have 1: "read_cel_file read_csv name txt = Inl ValueError_NoFields \<longleftrightarrow> flds = None"
    using init by (auto simp: r split: option.splits)
  have 2: "flds \<noteq> None \<Longrightarrow>
           read_cel_file read_csv name txt = Inl ValueError_NoEndHeader \<longleftrightarrow> eidx = None"
    using init by (auto simp: r split: option.splits)
  show ?thesis using 1 2 f e by blast
qed

theorem read_cel_file_header_errors_witness:
  "list_ex is_fields_line (scan_window txt_spikes) \<and>
   list_ex is_endheader (take 800 (splitlines txt_spikes)) \<and>
   read_cel_file csv_spikes ''BL1'' txt_spikes \<noteq> Inl ValueError_NoFields \<and>
   read_cel_file csv_spikes ''BL1'' txt_spikes \<noteq> Inl ValueError_NoEndHeader \<and>
   \<not> list_ex is_endheader (take 800 (splitlines ''%Fields: time\<newline>1.0\<newline>'')) \<and>
   read_cel_file csv_spikes ''BL1'' ''%Fields: time\<newline>1.0\<newline>'' = Inl ValueError_NoEndHeader \<and>
   \<not> list_ex is_fields_line (scan_window ''%%ENDHEADER\<newline>%Fields: time\<newline>1.0\<newline>'') \<and>
   read_cel_file csv_spikes ''BL1'' ''%%ENDHEADER\<newline>%Fields: time\<newline>1.0\<newline>'' = Inl ValueError_NoFields"
proof -
  have f1: "list_ex is_fields_line (scan_window txt_spikes)" by code_simp
  have e1: "list_ex is_endheader (take 800 (splitlines txt_spikes))" by code_simp
  have f2: "list_ex is_fields_line (scan_window ''%Fields: time\<newline>1.0\<newline>'')" by code_simp
  have e2: "\<not> list_ex is_endheader (take 800 (splitlines ''%Fields: time\<newline>1.0\<newline>''))" by code_simp
  have f3: "\<not> list_ex is_fields_line (scan_window ''%%ENDHEADER\<newline>%Fields: time\<newline>1.0\<newline>'')"
    by code_simp
  show ?thesis
    using read_cel_file_header_errors[of csv_spikes "''BL1''" txt_spikes]
          read_cel_file_header_errors[of csv_spikes "''BL1''" "''%Fields: time\<newline>1.0\<newline>''"]
          read_cel_file_header_errors[of csv_spikes "''BL1''"
            "''%%ENDHEADER\<newline>%Fields: time\<newline>1.0\<newline>''"]
          f1 e1 f2 e2 f3
    by blast
qed

text \<open>
  Claim C5 as the specification words it fails on a file whose end-of-header line is
  indented: a fields line was seen and no line of the file equals the token
  \<open>%%ENDHEADER\<close>, yet the parse does not fail; it returns the record.
\<close>

theorem read_cel_file_indented_sentinel:
  "splitlines txt_indented = [''%Cluster: 3'', ''%Fields: time'', '' %%ENDHEADER'', ''1.0''] \<and>
   is_fields_line ''%Fields: time'' \<and>
   ''%%ENDHEADER'' \<notin> set (take 800 (splitlines txt_indented)) \<and>
   read_cel_file csv_indented ''BL1'' txt_indented =
     Inr \<lparr> fields_list = [''time''], header = [(''Cluster'', ''3'')], data = [[Num 1]],
           cluster = Some 3, session_type = ''BL'', start_time_sec = NaN, end_time_sec = NaN,
           has_position = False \<rparr>"
  by code_simp

text \<open>
  Claim C9, amended. In a record that \<open>read_cel_file\<close> returns, the field list is the
  one the header declares, and the row table is the frame \<open>read_csv\<close> returns for the
  rows after the end-of-header line under those names, without the rows in which every
  cell is NA as read (no token, or an NA spelling), the other rows kept in order; so
  every row of the table has a cell that is not NA. A token that is not a number is not
  NA: it stays in the table as text and turns into a missing value only when its column
  is read. \<open>spike_times\<close> is the \<open>time\<close> column of the table read with coercion, a
  number where the cell is one and NaN elsewhere, and a \<open>KeyError\<close> when no field has
  that name; \<open>pos_x\<close> and \<open>pos_y\<close> are their columns read the same way when both are
  declared, and nothing otherwise.
\<close>

theorem read_cel_file_row_table:
  "read_cel_file read_csv name txt = Inr cel \<longrightarrow>
     (\<exists>df. read_csv (endheader_index txt + 1) (declared_fields txt) = Some df \<and>
           data cel = kept_rows df) \<and>
     fields_list cel = declared_fields txt \<and>
     (\<forall>row\<in>set (data cel). \<exists>c\<in>set row. c \<noteq> NA) \<and>
     spike_times cel =
       (if ''time'' \<in> set (declared_fields txt)
        then Inr (coerced (declared_fields txt) ''time'' (data cel))
        else Inl (KeyError ''time'')) \<and>
     pos_x cel =
       (if ''pos_x'' \<in> set (declared_fields txt) \<and> ''pos_y'' \<in> set (declared_fields txt)
        then Inr (Some (coerced (declared_fields txt) ''pos_x'' (data cel)))
        else Inr None) \<and>
     pos_y cel =
       (if ''pos_x'' \<in> set (declared_fields txt) \<and> ''pos_y'' \<in> set (declared_fields txt)
        then Inr (Some (coerced (declared_fields txt) ''pos_y'' (data cel)))
        else Inr None)"
proof (intro impI conjI)
  assume a: "read_cel_file read_csv name txt = Inr cel"
  then obtain df where
    df: "read_csv (endheader_index txt + 1) (declared_fields txt) = Some df"
    and d: "data cel = kept_rows df"
    and fl: "fields_list cel = declared_fields txt"
    and hp: "has_position cel =
               (''pos_x'' \<in> set (declared_fields txt) \<and> ''pos_y'' \<in> set (declared_fields txt))"
    using read_cel_file_exact[OF a] unfolding dropna_all_kept_rows by blast
  show "\<exists>df. read_csv (endheader_index txt + 1) (declared_fields txt) = Some df \<and>
             data cel = kept_rows df"
    using df d by blast
  show "fields_list cel = declared_fields txt" by (rule fl)
  show "\<forall>row\<in>set (data cel). \<exists>c\<in>set row. c \<noteq> NA"
    by (simp add: d kept_rows_def)
  show "spike_times cel =
       (if ''time'' \<in> set (declared_fields txt)
        then Inr (coerced (declared_fields txt) ''time'' (data cel))
        else Inl (KeyError ''time''))"
    by (simp add: spike_times_def column_def fl comp_def to_numeric_coerced)
  show "pos_x cel =
       (if ''pos_x'' \<in> set (declared_fields txt) \<and> ''pos_y'' \<in> set (declared_fields txt)
        then Inr (Some (coerced (declared_fields txt) ''pos_x'' (data cel)))
        else Inr None)"
    by (simp add: pos_x_def column_def fl hp comp_def to_numeric_coerced)
  show "pos_y cel =
       (if ''pos_x'' \<in> set (declared_fields txt) \<and> ''pos_y'' \<in> set (declared_fields txt)
        then Inr (Some (coerced (declared_fields txt) ''pos_y'' (data cel)))
        else Inr None)"
    by (simp add: pos_y_def column_def fl hp comp_def to_numeric_coerced)
qed

theorem read_cel_file_row_table_witness:
  "read_cel_file csv_pos_rows ''ES1'' txt_pos_rows =
     Inr \<lparr> fields_list = [''time'', ''pos_x'', ''pos_y''], header = [],
           data = [[Num 1, Txt ''abc'', Num 3], [Num 2.5, Num 4, Num 5]],
           cluster = None, session_type = ''ES'', start_time_sec = NaN, end_time_sec = NaN,
           has_position = True \<rparr> \<and>
   endheader_index txt_pos_rows = 1 \<and>
   declared_fields txt_pos_rows = [''time'', ''pos_x'', ''pos_y''] \<and>
   csv_pos_rows 2 [''time'', ''pos_x'', ''pos_y''] =
     Some [[Num 1, Txt ''abc'', Num 3], [NA, NA, NA], [Num 2.5, Num 4, Num 5]] \<and>
   spike_times \<lparr> fields_list = [''time'', ''pos_x'', ''pos_y''], header = [],
           data = [[Num 1, Txt ''abc'', Num 3], [Num 2.5, Num 4, Num 5]],
           cluster = None, session_type = ''ES'', start_time_sec = NaN, end_time_sec = NaN,
           has_position = True \<rparr> = Inr [Some 1, Some (2.5 :: real)] \<and>
   pos_x \<lparr> fields_list = [''time'', ''pos_x'', ''pos_y''], header = [],
           data = [[Num 1, Txt ''abc'', Num 3], [Num 2.5, Num 4, Num 5]],
           cluster = None, session_type = ''ES'', start_time_sec = NaN, end_time_sec = NaN,
           has_position = True \<rparr> = Inr (Some [None, Some (4 :: real)]) \<and>
   pos_y \<lparr> fields_list = [''time'', ''pos_x'', ''pos_y''], header = [],
           data = [[Num 1, Txt ''abc'', Num 3], [Num 2.5, Num 4, Num 5]],
           cluster = None, session_type = ''ES'', start_time_sec = NaN, end_time_sec = NaN,
           has_position = True \<rparr> = Inr (Some [Some 3, Some (5 :: real)])"
proof -
  let ?cel = "\<lparr> fields_list = [''time'', ''pos_x'', ''pos_y''], header = [],
           data = [[Num 1, Txt ''abc'', Num 3], [Num (2.5 :: real), Num 4, Num 5]],
           cluster = None, session_type = ''ES'', start_time_sec = NaN, end_time_sec = NaN,
           has_position = True \<rparr>"
  have r: "read_cel_file csv_pos_rows ''ES1'' txt_pos_rows = Inr ?cel" by code_simp
  have i: "endheader_index txt_pos_rows = 1" by code_simp
  have f: "declared_fields txt_pos_rows = [''time'', ''pos_x'', ''pos_y'']" by code_simp
  have c: "csv_pos_rows 2 [''time'', ''pos_x'', ''pos_y''] =
     Some [[Num 1, Txt ''abc'', Num 3], [NA, NA, NA], [Num 2.5, Num 4, Num 5]]"
    by (simp add: csv_pos_rows_def)
  have t: "spike_times ?cel =
       (if ''time'' \<in> set (declared_fields txt_pos_rows)
        then Inr (coerced (declared_fields txt_pos_rows) ''time'' (data ?cel))
        else Inl (KeyError ''time''))"
    and x: "pos_x ?cel =
       (if ''pos_x'' \<in> set (declared_fields txt_pos_rows) \<and> ''pos_y'' \<in> set (declared_fields txt_pos_rows)
        then Inr (Some (coerced (declared_fields txt_pos_rows) ''pos_x'' (data ?cel)))
        else Inr None)"
    and y: "pos_y ?cel =
       (if ''pos_x'' \<in> set (declared_fields txt_pos_rows) \<and> ''pos_y'' \<in> set (declared_fields txt_pos_rows)
        then Inr (Some (coerced (declared_fields txt_pos_rows) ''pos_y'' (data ?cel)))
        else Inr None)"
    using read_cel_file_row_table[of csv_pos_rows "''ES1''" txt_pos_rows ?cel] r by blast+
  have t': "spike_times ?cel = Inr [Some 1, Some 2.5]"
    unfolding t f by (simp add: coerced_def cell_at_def)
  have x': "pos_x ?cel = Inr (Some [None, Some 4])"
    unfolding x f by (simp add: coerced_def cell_at_def)
  have y': "pos_y ?cel = Inr (Some [Some 3, Some 5])"
    unfolding y f by (simp add: coerced_def cell_at_def)
  show ?thesis using r i f c t' x' y' by simp
qed

text \<open>
  Claim C9 as the specification words it fails on a data row whose tokens are not
  numbers: the row \<open>abc\<close> stays in the row table, and the one field value it has is
  missing once coerced.
\<close>

theorem read_cel_file_keeps_text_row:
  "read_cel_file csv_text_row ''BL1'' txt_text_row =
     Inr \<lparr> fields_list = [''time''], header = [], data = [[Txt ''abc''], [Num 2.5]],
           cluster = None, session_type = ''BL'', start_time_sec = NaN, end_time_sec = NaN,
           has_position = False \<rparr> \<and>
   map to_numeric [Txt ''abc'' :: real cell] = [None]"
  by code_simp

section \<open>Binary layout: proofs\<close>

lemma be_word_4: "be_word [b0, b1, b2, b3] = be_decode b0 b1 b2 b3"
  by (simp add: be_word_def be_decode_def push_bit_eq_mult algebra_simps)

lemma ucast_byte: "(ucast (ucast (v :: 32 word) :: 8 word) :: 32 word) = take_bit 8 v"
  by (simp add: unsigned_ucast_eq)

lemma top_byte: "take_bit 8 (drop_bit 24 (w :: 32 word)) = drop_bit 24 w"
  by (rule bit_word_eqI) (auto simp: bit_simps dest: bit_imp_le_length)

lemma be_word_be_bytes: "be_word (be_bytes w) = w"
proof -
  have 1: "push_bit 8 (drop_bit 24 w) + take_bit 8 (drop_bit 16 w) = drop_bit 16 w"
    using bits_ident[of 8 "drop_bit 16 w"] by simp
  have 2: "push_bit 8 (drop_bit 16 w) + take_bit 8 (drop_bit 8 w) = drop_bit 8 w"
    using bits_ident[of 8 "drop_bit 8 w"] by simp
  have 3: "push_bit 8 (drop_bit 8 w) + take_bit 8 w = w"
    by (rule bits_ident)
  show ?thesis
    unfolding be_word_def be_bytes_def
    by (simp add: ucast_byte top_byte 1 2 3)
qed


lemma take4_drop:
  "m + 4 \<le> length buf \<Longrightarrow> take 4 (drop m buf) = [buf ! m, buf ! (m + 1), buf ! (m + 2), buf ! (m + 3)]"
proof -
  assume a: "m + 4 \<le> length buf"
  have "drop m buf = buf ! m # drop (Suc m) buf"
    using a by (simp add: Cons_nth_drop_Suc)
  also have "drop (Suc m) buf = buf ! (m + 1) # drop (Suc (Suc m)) buf"
    using a by (simp add: Cons_nth_drop_Suc)
  also have "drop (Suc (Suc m)) buf = buf ! (m + 2) # drop (Suc (Suc (Suc m))) buf"
    using a Cons_nth_drop_Suc[of "Suc (Suc m)" buf] by simp
  also have "drop (Suc (Suc (Suc m))) buf = buf ! (m + 3) # drop (Suc (Suc (Suc (Suc m)))) buf"
    using a Cons_nth_drop_Suc[of "Suc (Suc (Suc m))" buf] by (simp add: numeral_3_eq_3)
  finally show ?thesis by simp
qed

lemma frombuffer_nth:
  assumes "frombuffer buf cnt offset = Inr ws" and "k < cnt"
  shows "ws ! k = be_decode (buf ! (offset + 4 * k)) (buf ! (offset + 4 * k + 1))
                            (buf ! (offset + 4 * k + 2)) (buf ! (offset + 4 * k + 3))"
proof -
  have len: "offset + 4 * cnt \<le> length buf" and ws: "ws = map (\<lambda>k. be_word (take 4 (drop (offset + 4 * k) buf))) [0..<cnt]"
    using assms(1) by (auto simp: frombuffer_def split: if_splits)
  have "offset + 4 * k + 4 \<le> length buf" using len assms(2) by simp
  then show ?thesis using assms(2) by (simp add: ws take4_drop be_word_4)
qed

lemma frombuffer_length: "frombuffer buf cnt offset = Inr ws \<Longrightarrow> length ws = cnt"
  by (auto simp: frombuffer_def split: if_splits)

lemma reshape_nth:
  assumes "i < rows" "j < cols" "rows * cols \<le> length xs"
  shows "reshape rows cols xs ! i ! j = xs ! (i * cols + j)"
proof -
  have "i * cols + cols \<le> rows * cols"
    using assms(1) by (metis Suc_leI mult_Suc mult_le_mono1 add.commute)
  then have "i * cols + j < length xs" using assms(2,3) by linarith
  then show ?thesis using assms(1,2) by (simp add: reshape_def)
qed

lemma length_be_bytes: "length (be_bytes w) = 4"
  by (simp add: be_bytes_def)

lemma concat_be_bytes_length: "length (concat (map be_bytes ws)) = 4 * length ws"
  by (induction ws) (auto simp: be_bytes_def)

lemma concat_be_bytes_chunk:
  "k < length ws \<Longrightarrow> take 4 (drop (4 * k) (concat (map be_bytes ws) @ rest)) = be_bytes (ws ! k)"
proof (induction ws arbitrary: k)
  case Nil
  then show ?case by simp
next
  case (Cons w ws)
  show ?case
  proof (cases k)
    case 0
    then show ?thesis by (simp add: be_bytes_def)
  next
    case (Suc k')
    then have k': "k' < length ws" using Cons.prems by simp
    have e1: "concat (map be_bytes (w # ws)) @ rest = be_bytes w @ (concat (map be_bytes ws) @ rest)"
      by simp
    have e2: "drop (4 * k) (be_bytes w @ Y) = drop (4 * k') Y" for Y
      using Suc by (simp add: length_be_bytes)
    have e3: "(w # ws) ! k = ws ! k'" using Suc by simp
    show ?thesis unfolding e1 e2 e3 using k' by (rule Cons.IH)
  qed
qed

lemma frombuffer_encoded:
  "frombuffer (pre @ concat (map be_bytes ws) @ rest) (length ws) (length pre) = Inr ws"
proof -
  have "map (\<lambda>k. be_word (take 4 (drop (length pre + 4 * k) (pre @ concat (map be_bytes ws) @ rest)))) [0..<length ws]
        = map (\<lambda>k. ws ! k) [0..<length ws]"
  proof (rule map_cong)
    fix k assume "k \<in> set [0..<length ws]"
    then have k: "k < length ws" by simp
    have "drop (length pre + 4 * k) (pre @ Y) = drop (4 * k) Y" for Y :: "8 word list"
      by simp
    then show "be_word (take 4 (drop (length pre + 4 * k) (pre @ concat (map be_bytes ws) @ rest))) = ws ! k"
      by (simp only: concat_be_bytes_chunk[OF k] be_word_be_bytes)
  qed simp
  then show ?thesis
    by (simp add: frombuffer_def concat_be_bytes_length map_nth)
qed

lemma concat_rows_chunk:
  "\<forall>r\<in>set rows. length r = n \<Longrightarrow> i < length rows \<Longrightarrow> take n (drop (i * n) (concat rows)) = rows ! i"
proof (induction rows arbitrary: i)
  case Nil
  then show ?case by simp
next
  case (Cons r rows)
  show ?case
  proof (cases i)
    case 0
    then show ?thesis using Cons.prems by simp
  next
    case (Suc i')
    then have "take n (drop (i' * n) (concat rows)) = rows ! i'"
      using Cons.prems by (intro Cons.IH) auto
    then show ?thesis using Suc Cons.prems by simp
  qed
qed

lemma reshape_concat:
  assumes "\<forall>r\<in>set rows. length r = n"
  shows "reshape (length rows) n (concat rows) = rows"
proof -
  have "map (\<lambda>i. take n (drop (i * n) (concat rows))) [0..<length rows] = map (\<lambda>i. rows ! i) [0..<length rows]"
    by (rule map_cong) (simp_all add: concat_rows_chunk[OF assms])
  then show ?thesis by (simp add: reshape_def map_nth)
qed

lemma length_concat_rows: "\<forall>r\<in>set rows. length r = n \<Longrightarrow> length (concat rows) = length rows * n"
  by (induction rows) auto

lemma sint_int32: "- (2 ^ 31) \<le> n \<Longrightarrow> n < 2 ^ 31 \<Longrightarrow> sint (word_of_int n :: 32 word) = n"
  by (simp add: sint_sbintrunc' signed_take_bit_int_eq_self)


lemma digit_plain:
  "is_digit c \<Longrightarrow> c \<noteq> CHR ''-'' \<and> c \<noteq> CHR ''+'' \<and> c \<noteq> CHR ''_'' \<and> \<not> int_isspace c"
  by (auto simp: is_digit_def int_isspace_def)

lemma digits_ok_all:
  "ds \<noteq> [] \<Longrightarrow> \<forall>c\<in>set ds. is_digit c \<Longrightarrow> digits_ok ds"
  by (induction ds rule: digits_ok.induct) (auto dest: digit_plain)

lemma strip_digits:
  assumes "\<forall>c\<in>set ds. is_digit c"
  shows "int_strip ds = ds"
proof -
  have ns: "\<forall>c\<in>set ds. \<not> int_isspace c" using assms digit_plain by blast
  have 1: "dropWhile int_isspace ds = ds"
    using ns by (cases ds) auto
  have "dropWhile int_isspace (rev ds) = rev ds"
    using ns by (cases "rev ds") (auto simp: rev_eq_Cons_iff)
  then show ?thesis by (simp add: int_strip_def 1)
qed

lemma py_int_digits:
  assumes "ds \<noteq> []" "\<forall>c\<in>set ds. is_digit c" "length ds \<le> 4300"
  shows "\<exists>n. py_int ds = Inr n"
proof -
  obtain c r where ds: "ds = c # r" using assms(1) by (cases ds) auto
  have c: "c \<noteq> CHR ''-''" "c \<noteq> CHR ''+''" using assms(2) ds digit_plain by auto
  have f: "filter is_digit ds = ds" using assms(2) by simp
  have ok: "digits_ok ds" using assms(1,2) by (rule digits_ok_all)
  show ?thesis
    using ok assms(3) c f unfolding py_int_def strip_digits[OF assms(2)] Let_def int_max_str_digits_def
    by (simp add: ds)
qed

lemma cell_match_digits:
  "cell_match s = Some ds \<Longrightarrow> ds \<noteq> [] \<and> (\<forall>c\<in>set ds. is_digit c) \<and> length ds \<le> length s"
proof (induction s)
  case Nil
  then show ?case by simp
next
  case (Cons c cs)
  show ?case
  proof (cases "take 5 (c # cs) = ''CELL~'' \<and> takeWhile is_digit (drop 5 (c # cs)) \<noteq> []")
    case True
    then have ds: "ds = takeWhile is_digit (drop 5 (c # cs))" using Cons.prems by simp
    have "length (takeWhile is_digit (drop 5 (c # cs))) \<le> length (drop 5 (c # cs))"
      by (rule length_takeWhile_le)
    then have "length ds \<le> length (c # cs)" unfolding ds by simp
    moreover have "\<forall>x\<in>set ds. is_digit x" unfolding ds by (auto dest: set_takeWhileD)
    ultimately show ?thesis using True ds by simp
  next
    case False
    then have "cell_match cs = Some ds" using Cons.prems by auto
    then show ?thesis using Cons.IH by auto
  qed
qed

lemma parse_rma_filename_ok:
  assumes "length upper \<le> 4300"
  shows "\<exists>stype cell_no. parse_rma_filename upper = Inr (stype, cell_no)"
proof (cases "cell_match upper")
  case None
  then show ?thesis by (simp add: parse_rma_filename_def)
next
  case (Some ds)
  then have "ds \<noteq> []" "\<forall>c\<in>set ds. is_digit c" "length ds \<le> 4300"
    using cell_match_digits[OF Some] assms by auto
  then obtain n where "py_int ds = Inr n" using py_int_digits by blast
  then show ?thesis using Some by (simp add: parse_rma_filename_def)
qed

lemma parse_rma_filename_error: "parse_rma_filename upper = Inl e \<Longrightarrow> e = ValueError_Int"
  by (auto simp: parse_rma_filename_def split: option.splits sum.splits dest: py_int_error)

lemma read_rma_file_wrong_size:
  "length buf \<noteq> 32768 \<Longrightarrow> read_rma_file upper buf = Inl (ValueError_Size (length buf))"
  by (simp add: read_rma_file_def RMA_FILE_SIZE_def)

lemma read_rma_file_right_size:
  assumes "length buf = 32768"
  shows "read_rma_file upper buf =
           (case parse_rma_filename upper of
              Inl e \<Rightarrow> Inl e
            | Inr (stype, cell_no) \<Rightarrow>
                Inr \<lparr> rate_map = reshape 64 64 (map (\<lambda>k. be_at buf (4 * k)) [0..<4096]),
                      occupancy_map = reshape 64 64 (map (\<lambda>k. sint (be_at buf (16384 + 4 * k))) [0..<4096]),
                      rma_session_type = stype, cell_number = cell_no \<rparr>)"
proof -
  obtain rates where r: "frombuffer buf N_PIXELS 0 = Inr rates"
    using assms by (simp add: frombuffer_def N_PIXELS_def)
  obtain occ where oc: "frombuffer buf N_PIXELS (N_PIXELS * 4) = Inr occ"
    using assms by (simp add: frombuffer_def N_PIXELS_def)
  have lr: "length rates = 4096" and lo: "length occ = 4096"
    using frombuffer_length[OF r] frombuffer_length[OF oc] by (simp_all add: N_PIXELS_def)
  have "rates = map (\<lambda>k. be_at buf (4 * k)) [0..<4096]"
    using frombuffer_nth[OF r] lr
    by (auto simp: list_eq_iff_nth_eq be_at_def N_PIXELS_def)
  moreover have "map sint occ = map (\<lambda>k. sint (be_at buf (16384 + 4 * k))) [0..<4096]"
    using frombuffer_nth[OF oc] lo
    by (auto simp: list_eq_iff_nth_eq be_at_def N_PIXELS_def)
  ultimately show ?thesis
    using assms r oc by (simp add: read_rma_file_def RMA_FILE_SIZE_def split: sum.splits)
qed

lemma layout_entries:
  assumes "length buf = 32768" "parse_rma_filename upper = Inr info"
  shows "\<exists>r. read_rma_file upper buf = Inr r \<and>
           (\<forall>i<64. \<forall>j<64.
              rate_map r ! i ! j = be_at buf (4 * (64 * i + j)) \<and>
              occupancy_map r ! i ! j = sint (be_at buf (16384 + 4 * (64 * i + j))))"
proof -
  obtain stype cell_no where info: "info = (stype, cell_no)" by (cases info)
  let ?r = "\<lparr> rate_map = reshape 64 64 (map (\<lambda>k. be_at buf (4 * k)) [0..<4096]),
               occupancy_map = reshape 64 64 (map (\<lambda>k. sint (be_at buf (16384 + 4 * k))) [0..<4096]),
               rma_session_type = stype, cell_number = cell_no \<rparr>"
  have eq: "read_rma_file upper buf = Inr ?r"
    using assms(2) info by (simp add: read_rma_file_right_size[OF assms(1)])
  have "rate_map ?r ! i ! j = be_at buf (4 * (64 * i + j)) \<and>
        occupancy_map ?r ! i ! j = sint (be_at buf (16384 + 4 * (64 * i + j)))"
    if "i < 64" "j < 64" for i j :: nat
  proof -
    have lt: "i * 64 + j < 4096" using that by simp
    have c: "i * 64 + j = 64 * i + j" by simp
    show ?thesis
      using that lt by (simp add: reshape_nth c)
  qed
  then show ?thesis using eq by blast
qed

lemma round_trip:
  assumes "square64 rates" "square64 occ" "list_all (list_all int32_range) occ"
    and "parse_rma_filename upper = Inr (stype, cell_no)"
  shows "read_rma_file upper (encode_rma rates occ) =
           Inr \<lparr> rate_map = rates, occupancy_map = occ, rma_session_type = stype, cell_number = cell_no \<rparr>"
proof -
  have rr: "\<forall>r\<in>set rates. length r = 64" and lr: "length rates = 64"
    and ro: "\<forall>r\<in>set occ. length r = 64" and lo: "length occ = 64"
    using assms(1,2) by (auto simp: square64_def list_all_iff)
  define os :: "32 word list" where "os = map word_of_int (concat occ)"
  let ?ws = "concat rates" and ?os = os
  have lws: "length ?ws = 4096" and los: "length ?os = 4096"
    using length_concat_rows[OF rr] length_concat_rows[OF ro] lr lo by (simp_all add: os_def)
  have enc: "encode_rma rates occ = concat (map be_bytes ?ws) @ concat (map be_bytes ?os)"
    by (simp only: encode_rma_def os_def)
  have len: "length (encode_rma rates occ) = 32768"
    using lws los by (simp add: enc concat_be_bytes_length)
  have f1: "frombuffer (encode_rma rates occ) N_PIXELS 0 = Inr ?ws"
    using frombuffer_encoded[of "[]" ?ws "concat (map be_bytes ?os)"] lws
    by (simp add: enc N_PIXELS_def)
  have f2: "frombuffer (encode_rma rates occ) N_PIXELS (N_PIXELS * 4) = Inr ?os"
    using frombuffer_encoded[of "concat (map be_bytes ?ws)" ?os "[]"] lws los
    by (simp add: enc N_PIXELS_def concat_be_bytes_length)
  have "\<forall>n\<in>set (concat occ). int32_range n"
    using assms(3) by (auto simp: list_all_iff)
  then have "map sint ?os = concat occ"
    unfolding os_def by (auto simp: int32_range_def sint_int32 comp_def intro!: map_idI)
  then have s: "reshape 64 64 (map sint ?os) = occ"
    using reshape_concat[OF ro] lo by simp
  have r: "reshape 64 64 ?ws = rates"
    using reshape_concat[OF rr] lr by simp
  show ?thesis
    using len f1 f2 assms(4) by (simp add: read_rma_file_def RMA_FILE_SIZE_def r s)
qed


lemma encode_rma_length:
  assumes "square64 rates" "square64 occ"
  shows "length (encode_rma rates occ) = 32768"
proof -
  have "length (concat rates) = 64 * 64" "length (concat occ) = 64 * 64"
    using assms length_concat_rows[of rates 64] length_concat_rows[of occ 64]
    by (simp_all add: square64_def list_all_iff)
  then show ?thesis
    unfolding encode_rma_def length_append concat_be_bytes_length by simp
qed

text \<open>
  Claim C8. On a buffer of 32768 bytes (and a file name whose cell number \<open>int()\<close>
  accepts, as it does that of every name of at most 4300 characters), the entry of the rate map at row \<open>i\<close>, column \<open>j\<close> is the big-endian word of
  the four bytes at offset \<open>4 * (64 * i + j)\<close>, read as a 32-bit float, and the entry of the
  occupancy map there is the two's complement value of the four bytes at offset
  \<open>16384 + 4 * (64 * i + j)\<close>. Hence writing any 64 by 64 matrix of float patterns and any
  64 by 64 matrix of signed 32-bit integers in that layout and parsing the bytes gives the
  two matrices back, at \<open>[0][0]\<close>, at \<open>[63][63]\<close> and everywhere between.
\<close>

theorem read_rma_file_layout:
  "(length buf = 32768 \<and> parse_rma_filename upper = Inr info \<longrightarrow>
      (\<exists>r. read_rma_file upper buf = Inr r \<and>
           (\<forall>i<64. \<forall>j<64.
              rate_map r ! i ! j = be_at buf (4 * (64 * i + j)) \<and>
              occupancy_map r ! i ! j = sint (be_at buf (16384 + 4 * (64 * i + j)))))) \<and>
   (square64 rates \<and> square64 occ \<and> list_all (list_all int32_range) occ \<and>
    parse_rma_filename upper = Inr (stype, cell_no) \<longrightarrow>
      read_rma_file upper (encode_rma rates occ) =
        Inr \<lparr> rate_map = rates, occupancy_map = occ,
              rma_session_type = stype, cell_number = cell_no \<rparr>) \<and>
   (length upper \<le> 4300 \<longrightarrow> (\<exists>st cn. parse_rma_filename upper = Inr (st, cn)))"
  using layout_entries[of buf upper info] round_trip[of rates occ upper stype cell_no]
        parse_rma_filename_ok[of upper]
  by blast

theorem read_rma_file_layout_witness:
  "length (encode_rma rates_pattern occ_pattern) = 32768 \<and>
   parse_rma_filename ''ESCELL~1.RMA'' = Inr (''ES'', Some 1) \<and>
   square64 rates_pattern \<and> square64 occ_pattern \<and>
   list_all (list_all int32_range) occ_pattern \<and>
   read_rma_file ''ESCELL~1.RMA'' (encode_rma rates_pattern occ_pattern) =
     Inr \<lparr> rate_map = rates_pattern, occupancy_map = occ_pattern,
           rma_session_type = ''ES'', cell_number = Some 1 \<rparr> \<and>
   rates_pattern ! 0 ! 0 = 0x3FC00000 \<and> rates_pattern ! 63 ! 63 = 0xC2280000 \<and>
   occ_pattern ! 0 ! 0 = - 7 \<and> occ_pattern ! 63 ! 63 = 2147483647"
proof -
  have sq: "square64 rates_pattern" "square64 occ_pattern"
    by (simp_all add: square64_def rates_pattern_def occ_pattern_def list_all_iff)
  have rng: "list_all (list_all int32_range) occ_pattern"
    by (simp add: occ_pattern_def int32_range_def list_all_iff)
  have nm: "parse_rma_filename ''ESCELL~1.RMA'' = Inr (''ES'', Some 1)"
    by code_simp
  have len: "length (encode_rma rates_pattern occ_pattern) = 32768"
    using sq by (rule encode_rma_length)
  have vals: "rates_pattern ! 0 ! 0 = 0x3FC00000 \<and> rates_pattern ! 63 ! 63 = 0xC2280000 \<and>
              occ_pattern ! 0 ! 0 = - 7 \<and> occ_pattern ! 63 ! 63 = 2147483647"
    by (simp add: rates_pattern_def occ_pattern_def nth_append)
  show ?thesis
    using read_rma_file_layout[of "encode_rma rates_pattern occ_pattern" "''ESCELL~1.RMA''"
            "(''ES'', Some 1)" rates_pattern occ_pattern "''ES''" "Some 1"]
          sq rng nm len vals
    by blast
qed

text \<open>
  Claim C7. The binary parse fails with the size error exactly when the buffer is not
  32768 bytes long: on any other length it raises it (with the length it found), and on a
  buffer of 32768 bytes it never does.
\<close>

theorem read_rma_file_size_check:
  "(length buf \<noteq> 32768 \<longrightarrow> read_rma_file upper buf = Inl (ValueError_Size (length buf))) \<and>
   (length buf = 32768 \<longrightarrow> (\<forall>n. read_rma_file upper buf \<noteq> Inl (ValueError_Size n)))"
proof (intro conjI impI allI)
  assume "length buf \<noteq> 32768"
  then show "read_rma_file upper buf = Inl (ValueError_Size (length buf))"
    by (rule read_rma_file_wrong_size)
next
  fix n assume len: "length buf = 32768"
  show "read_rma_file upper buf \<noteq> Inl (ValueError_Size n)"
  proof (cases "parse_rma_filename upper")
    case (Inl e)
    then show ?thesis
      using parse_rma_filename_error[OF Inl] by (simp add: read_rma_file_right_size[OF len])
  next
    case (Inr info)
    then show ?thesis
      by (simp add: read_rma_file_right_size[OF len] split: prod.splits)
  qed
qed

theorem read_rma_file_size_check_witness:
  "length [1, 2, 3 :: 8 word] \<noteq> 32768 \<and>
   read_rma_file ''ESCELL~1.RMA'' [1, 2, 3] = Inl (ValueError_Size 3) \<and>
   length (replicate 32768 (0 :: 8 word)) = 32768 \<and>
   read_rma_file ''ESCELL~1.RMA'' (replicate 32768 0) \<noteq> Inl (ValueError_Size 32768)"
  using read_rma_file_size_check[of "[1, 2, 3]" "''ESCELL~1.RMA''"]
        read_rma_file_size_check[of "replicate 32768 0" "''ESCELL~1.RMA''"]
  by simp

section \<open>Session assembly: proofs\<close>

lemma parse_dir_skips_failure:
  "parse_dir tt_name (rs @ Inl e # rs') = parse_dir tt_name (rs @ rs')"
  by (induction rs) (auto split: sum.splits)

lemma convert_session_skips_failure:
  "convert_session False (ds @ (tt_name, rs @ Inl e # rs') # ds') analyzed =
   convert_session False (ds @ (tt_name, rs @ rs') # ds') analyzed"
  by (simp add: convert_session_def parse_all_def parse_dir_skips_failure)

text \<open>
  Claim C4 at a failing input. A file that raises in \<open>read_cel_file\<close> is skipped and the
  session is assembled from the others (the lemma above, and the last equation below). A
  file that parses but has no \<open>time\<close> column is not: \<open>spike_times\<close> raises
  \<open>KeyError\<close> outside the loop that catches, and the session is lost with it, the
  units of the other file included.
\<close>

theorem convert_session_missing_time_column:
  "read_cel_file csv_no_time ''ES1'' txt_no_time =
     Inr \<lparr> fields_list = [''pos_x'', ''pos_y''], header = [(''Cluster'', ''1'')],
           data = [[Num 10, Num 20]], cluster = Some 1, session_type = ''ES'',
           start_time_sec = NaN, end_time_sec = NaN, has_position = True \<rparr> \<and>
   convert_session False
     [(''TT0'', [read_cel_file csv_spikes ''BL1'' txt_spikes,
                 read_cel_file csv_no_time ''ES1'' txt_no_time])] None
     = Inl (KeyError ''time'') \<and>
   convert_session False
     [(''TT0'', [read_cel_file csv_spikes ''BL1'' txt_spikes, Inl ReadCsvError])] None
     = Inr \<lparr> epochs = [(0, 600, ''BL'')],
             units = [\<lparr> unit_spike_times = [1, 3], tetrode = ''TT0'', cluster_id = 3 \<rparr>],
             position_trace = None, rate_maps = [] \<rparr>"
  by code_simp






lemma epoch_set_ok:
  "list_all epoch_ok files \<Longrightarrow> \<exists>d'. epoch_set files d = Inr d'"
proof (induction files arbitrary: d)
  case Nil
  then show ?case by simp
next
  case (Cons f files)
  obtain tt_name cel where f: "f = (tt_name, cel)" by (cases f)
  have ok: "epoch_ok (tt_name, cel)" and rest: "list_all epoch_ok files"
    using Cons.prems by (simp_all add: f)
  note ih = Cons.IH[OF rest]
  show ?case
  proof (cases "start_time_sec cel")
    case NaN
    then show ?thesis using ih[of d] by (simp add: f)
  next
    case (Sec t0)
    note s = Sec
    then have t0: "np_int_ok t0" using ok by (simp add: epoch_ok_def)
    show ?thesis
    proof (cases "end_time_sec cel")
      case NaN
      then show ?thesis using ih[of d] s t0 by (simp add: f)
    next
      case (Sec t1)
      then have t1: "np_int_ok t1" using ok s by (simp add: epoch_ok_def)
      show ?thesis
        using ih[of "set_key (t0, t1, session_type cel) d"] s Sec t0 t1 by (simp add: f)
    qed
  qed
qed

lemma epoch_set_TypeError:
  "\<not> list_all epoch_ok files \<Longrightarrow> epoch_set files d = Inl TypeError"
proof (induction files arbitrary: d)
  case Nil
  then show ?case by simp
next
  case (Cons f files)
  obtain tt_name cel where f: "f = (tt_name, cel)" by (cases f)
  show ?case
  proof (cases "epoch_ok (tt_name, cel)")
    case False
    show ?thesis
    proof (cases "start_time_sec cel")
      case NaN
      then show ?thesis using False by (simp add: epoch_ok_def)
    next
      case (Sec t0)
      note s = Sec
      show ?thesis
      proof (cases "np_int_ok t0")
        case False
        then show ?thesis using s by (simp add: f)
      next
        case True
        then obtain t1 where "end_time_sec cel = Sec t1" "\<not> np_int_ok t1"
          using False s by (cases "end_time_sec cel") (simp_all add: epoch_ok_def)
        then show ?thesis using s True by (simp add: f)
      qed
    qed
  next
    case True
    then have "\<not> list_all epoch_ok files" using Cons.prems by (simp add: f)
    then have ih: "\<And>d. epoch_set files d = Inl TypeError" by (rule Cons.IH)
    show ?thesis
    proof (cases "start_time_sec cel")
      case NaN
      then show ?thesis using ih by (simp add: f)
    next
      case (Sec t0)
      note s = Sec
      then have t0: "np_int_ok t0" using True by (simp add: epoch_ok_def)
      show ?thesis
      proof (cases "end_time_sec cel")
        case NaN
        then show ?thesis using ih s t0 by (simp add: f)
      next
        case (Sec t1)
        then have t1: "np_int_ok t1" using True s by (simp add: epoch_ok_def)
        show ?thesis using ih s Sec t0 t1 by (simp add: f)
      qed
    qed
  qed
qed


lemma build_epochs_ok:
  "build_epochs files =
     (if list_all epoch_ok files then build_epochs files else Inl TypeError)"
  by (simp add: build_epochs_def epoch_set_TypeError)

lemma build_epochs_total_iff:
  "(\<exists>eps. build_epochs files = Inr eps) \<longleftrightarrow> list_all epoch_ok files"
proof
  assume "\<exists>eps. build_epochs files = Inr eps"
  then show "list_all epoch_ok files"
    by (metis build_epochs_ok sum.distinct(1))
next
  assume "list_all epoch_ok files"
  then obtain d where "epoch_set files [] = Inr d" using epoch_set_ok by blast
  then show "\<exists>eps. build_epochs files = Inr eps" by (simp add: build_epochs_def)
qed

text \<open>
  A header whose start time is \<open>5124095576030431:00:16\<close> gives 2 to the power 64 seconds,
  which \<open>np.isnan\<close> refuses: the epochs are not built.
\<close>

lemma build_epochs_huge_time:
  "parse_time_str ''5124095576030431:00:16'' = Inr (Sec 18446744073709551616) \<and>
   build_epochs [(''TT0'', cel_of [''time''] [[Num 1]] (Some 1) (Sec 18446744073709551616) (Sec 600) ''BL'')]
     = Inl TypeError"
  by code_simp

lemma dict_get_append:
  "dict_get (dict_append k v d) k' = (if k' = k then dict_get d k @ [v] else dict_get d k')"
  by (induction d) (auto simp: dict_get_def)

lemma fst_in_keys: "(a, b) \<in> set d \<Longrightarrow> a \<in> fst ` set d"
  by force

lemma keys_dict_append: "fst ` set (dict_append k v d) = insert k (fst ` set d)"
  by (induction k v d rule: dict_append.induct) (auto dest: fst_in_keys)

lemma distinct_dict_append:
  "distinct (map fst d) \<Longrightarrow> distinct (map fst (dict_append k v d))"
proof (induction d)
  case Nil
  then show ?case by simp
next
  case (Cons p d)
  obtain k' vs where p: "p = (k', vs)" by (cases p)
  have notin: "k' \<notin> fst ` set d" and dd: "distinct (map fst d)"
    using Cons.prems by (simp_all add: p)
  show ?case
  proof (cases "k' = k")
    case True
    then show ?thesis using Cons.prems by (simp add: p)
  next
    case False
    have "k' \<notin> fst ` set (dict_append k v d)"
      using False notin by (simp add: keys_dict_append)
    then show ?thesis using False Cons.IH[OF dd] by (simp add: p)
  qed
qed

lemma spike_times_has_time:
  "spike_times cel = (if ''time'' \<in> set (fields_list cel)
      then Inr (map (\<lambda>row. to_numeric (cell_at row (index_of (fields_list cel) ''time''))) (data cel))
      else Inl (KeyError ''time''))"
  by (simp add: spike_times_def column_def)

lemma concat_group_arrays: "concat (group_arrays files k) = group_times files k"
  unfolding group_arrays_def group_times_def
  by (induction files) auto

lemma group_arrays_empty_iff: "group_arrays files k = [] \<longleftrightarrow> group_times files k = []"
  unfolding group_arrays_def group_times_def
  by (induction files) auto

lemma group_keys_Cons:
  "group_keys (f # files) =
     (if valid_spike_times (snd f) \<noteq> [] then {unit_key f} else {}) \<union> group_keys files"
  by (auto simp: group_keys_def group_times_def)

lemma group_arrays_Cons:
  "group_arrays (f # files) k =
     (if unit_key f = k \<and> valid_spike_times (snd f) \<noteq> [] then [valid_spike_times (snd f)] else [])
     @ group_arrays files k"
  by (simp add: group_arrays_def)

lemma unit_spikes_ok:
  assumes "list_all has_time files"
  shows "\<exists>d'. unit_spikes files d = Inr d' \<and>
           (\<forall>k. dict_get d' k = dict_get d k @ group_arrays files k) \<and>
           fst ` set d' = fst ` set d \<union> group_keys files \<and>
           (distinct (map fst d) \<longrightarrow> distinct (map fst d'))"
  using assms
proof (induction files arbitrary: d)
  case Nil
  then show ?case by (simp add: group_arrays_def group_keys_def group_times_def)
next
  case (Cons f files)
  obtain tt_name cel where f: "f = (tt_name, cel)" by (cases f)
  have "has_time f" and rest: "list_all has_time files"
    using Cons.prems by simp_all
  then have ht: "''time'' \<in> set (fields_list cel)"
    by (simp add: f has_time_def)
  obtain ts where ts: "spike_times cel = Inr ts" "valid_spike_times cel = drop_nan ts"
    using ht by (simp add: spike_times_has_time valid_spike_times_def)
  have uk: "unit_key f = (tt_name, case cluster cel of None \<Rightarrow> - 1 | Some c \<Rightarrow> c)"
    by (simp add: f unit_key_def)
  show ?case
  proof (cases "drop_nan ts = []")
    case True
    then have step: "unit_spikes (f # files) d = unit_spikes files d"
      by (simp add: f ts)
    have "group_arrays (f # files) k = group_arrays files k" for k
      using True ts by (simp add: group_arrays_Cons f)
    moreover have "group_keys (f # files) = group_keys files"
      using True ts by (simp add: group_keys_Cons f)
    ultimately show ?thesis using Cons.IH[OF rest, of d] step by simp
  next
    case False
    let ?d1 = "dict_append (unit_key f) (drop_nan ts) d"
    have step: "unit_spikes (f # files) d = unit_spikes files ?d1"
      using False by (simp add: f ts unit_key_def)
    obtain d' where d': "unit_spikes files ?d1 = Inr d'"
      "\<forall>k. dict_get d' k = dict_get ?d1 k @ group_arrays files k"
      "fst ` set d' = fst ` set ?d1 \<union> group_keys files"
      "distinct (map fst ?d1) \<longrightarrow> distinct (map fst d')"
      using Cons.IH[OF rest, of ?d1] by blast
    have ga: "group_arrays (f # files) k =
        (if unit_key f = k then [drop_nan ts] else []) @ group_arrays files k" for k
      using False ts by (simp add: group_arrays_Cons f)
    have gk: "group_keys (f # files) = insert (unit_key f) (group_keys files)"
      using False ts by (simp add: group_keys_Cons f)
    have "\<forall>k. dict_get d' k = dict_get d k @ group_arrays (f # files) k"
      using d'(2) by (auto simp: dict_get_append ga)
    moreover have "fst ` set d' = fst ` set d \<union> group_keys (f # files)"
      using d'(3) by (simp add: keys_dict_append gk)
    moreover have "distinct (map fst d) \<longrightarrow> distinct (map fst d')"
    proof
      assume "distinct (map fst d)"
      then have "distinct (map fst ?d1)" by (rule distinct_dict_append)
      then show "distinct (map fst d')" using d'(4) by simp
    qed
    ultimately show ?thesis using step d'(1) by simp
  qed
qed

lemma unit_spikes_fails:
  assumes "\<not> list_all has_time files"
  shows "unit_spikes files d = Inl (KeyError ''time'')"
  using assms
proof (induction files arbitrary: d)
  case Nil
  then show ?case by simp
next
  case (Cons f files)
  obtain tt_name cel where f: "f = (tt_name, cel)" by (cases f)
  show ?case
  proof (cases "has_time f")
    case True
    then have "\<not> list_all has_time files" using Cons.prems by simp
    then have "unit_spikes files d1 = Inl (KeyError ''time'')" for d1
      by (rule Cons.IH)
    moreover obtain ts where "spike_times cel = Inr ts"
      using True by (simp add: spike_times_has_time has_time_def f)
    ultimately show ?thesis by (simp add: f)
  next
    case False
    then show ?thesis by (simp add: f has_time_def spike_times_has_time)
  qed
qed

lemma add_units_ok:
  assumes "\<forall>k\<in>set ks. dict_get d k \<noteq> []"
  shows "add_units ks d =
           Inr (map (\<lambda>k. \<lparr> unit_spike_times = sort (concat (dict_get d k)),
                             tetrode = fst k, cluster_id = snd k \<rparr>) ks)"
  using assms
proof (induction ks)
  case Nil
  then show ?case by simp
next
  case (Cons k ks)
  obtain tt_name cid where k: "k = (tt_name, cid)" by (cases k)
  show ?case using Cons by (simp add: k np_concatenate_def)
qed

lemma build_units_char:
  "build_units files =
     (if list_all has_time files
      then Inr (map (unit_of files) (sorted_list_of_set (group_keys files)))
      else Inl (KeyError ''time''))"
proof (cases "list_all has_time files")
  case False
  then show ?thesis by (simp add: build_units_def unit_spikes_fails)
next
  case True
  obtain d' where d': "unit_spikes files [] = Inr d'"
    and dg: "\<And>k. dict_get d' k = group_arrays files k"
    and keys: "set (map fst d') = group_keys files"
    and dist: "distinct (map fst d')"
    using unit_spikes_ok[OF True, of "[]"] by (auto simp: dict_get_def)
  have srt: "sort (map fst d') = sorted_list_of_set (group_keys files)"
    using keys dist by (metis sorted_list_of_set_sort_remdups distinct_remdups_id)
  have ne: "\<forall>k\<in>set (sort (map fst d')). dict_get d' k \<noteq> []"
    using keys by (simp add: dg group_arrays_empty_iff group_keys_def)
  show ?thesis
    using True d' add_units_ok[OF ne]
    by (simp add: build_units_def srt dg concat_group_arrays unit_of_def)
qed


lemma finite_group_keys: "finite (group_keys files)"
proof -
  have "group_keys files \<subseteq> unit_key ` set files"
    by (force simp: group_keys_def group_times_def)
  then show ?thesis by (rule finite_subset) simp
qed

lemma row_key_unit_of: "row_key (unit_of files k) = k"
  by (simp add: row_key_def unit_of_def)

lemma build_units_rows:
  assumes "build_units files = Inr rows"
  shows "list_all has_time files"
    and "rows = map (unit_of files) (sorted_list_of_set (group_keys files))"
    and "map row_key rows = sorted_list_of_set (group_keys files)"
proof -
  show 1: "list_all has_time files"
    using assms by (simp add: build_units_char split: if_splits)
  show 2: "rows = map (unit_of files) (sorted_list_of_set (group_keys files))"
    using assms 1 by (simp add: build_units_char)
  show "map row_key rows = sorted_list_of_set (group_keys files)"
    unfolding 2 by (simp add: comp_def row_key_unit_of)
qed



lemma convert_session_aborts:
  assumes "list_all epoch_ok (parse_all stub_test tt_dirs)"
    and "\<not> list_all has_time (parse_all stub_test tt_dirs)"
  shows "convert_session stub_test tt_dirs analyzed = Inl (KeyError ''time'')"
proof -
  obtain eps where "build_epochs (parse_all stub_test tt_dirs) = Inr eps"
    using assms(1) build_epochs_total_iff by blast
  then show ?thesis
    using assms(2) by (simp add: convert_session_def build_units_char)
qed

text \<open>
  Claim C1. When the unit table is built, it has one unit for every key (tetrode, cluster
  id or -1) under which some record has a valid spike time; the units are in strictly
  ascending order of (tetrode name, cluster id), names compared as strings; and the spike
  times of a unit are the valid spike times of the records with its key, concatenated in
  arrival order and sorted ascending, every time kept as often as it occurs. The table is
  built whenever every record has a \<open>time\<close> column.
\<close>

theorem build_units_merge:
  "(build_units files = Inr rows \<longrightarrow>
      sorted_wrt (<) (map row_key rows) \<and>
      row_key ` set rows = {k. group_times files k \<noteq> []} \<and>
      (\<forall>r\<in>set rows.
         unit_spike_times r = sort (group_times files (row_key r)) \<and>
         mset (unit_spike_times r) = mset (group_times files (row_key r)))) \<and>
   (list_all has_time files \<longrightarrow> (\<exists>rows. build_units files = Inr rows))"
proof (intro conjI impI)
  assume a: "build_units files = Inr rows"
  have keys: "map row_key rows = sorted_list_of_set (group_keys files)"
    and rows: "rows = map (unit_of files) (sorted_list_of_set (group_keys files))"
    using build_units_rows[OF a] by simp_all
  show "sorted_wrt (<) (map row_key rows)"
    unfolding keys by (simp add: strict_sorted_iff)
  have "set (map row_key rows) = group_keys files"
    unfolding keys by (simp add: finite_group_keys)
  then show "row_key ` set rows = {k. group_times files k \<noteq> []}"
    by (simp add: group_keys_def)
  show "\<forall>r\<in>set rows.
         unit_spike_times r = sort (group_times files (row_key r)) \<and>
         mset (unit_spike_times r) = mset (group_times files (row_key r))"
    unfolding rows by (auto simp: unit_of_def row_key_def)
next
  assume "list_all has_time files"
  then show "\<exists>rows. build_units files = Inr rows"
    by (simp add: build_units_char)
qed

theorem build_units_merge_witness:
  "list_all has_time unit_files \<and>
   build_units unit_files =
     Inr [\<lparr> unit_spike_times = [1, 2, 3], tetrode = ''TT0'', cluster_id = 3 \<rparr>,
          \<lparr> unit_spike_times = [5, 5], tetrode = ''TT10'', cluster_id = - 1 \<rparr>,
          \<lparr> unit_spike_times = [4], tetrode = ''TT2'', cluster_id = 0 \<rparr>] \<and>
   group_times unit_files (''TT0'', 3) = [1, 3, 2] \<and>
   sort (group_times unit_files (''TT0'', 3)) = [1, 2, 3] \<and>
   {k. group_times unit_files k \<noteq> []} = {(''TT0'', 3), (''TT10'', - 1), (''TT2'', 0)}"
proof -
  let ?rows = "[\<lparr> unit_spike_times = [1, 2, 3 :: real], tetrode = ''TT0'', cluster_id = 3 \<rparr>,
          \<lparr> unit_spike_times = [5, 5], tetrode = ''TT10'', cluster_id = - 1 \<rparr>,
          \<lparr> unit_spike_times = [4], tetrode = ''TT2'', cluster_id = 0 \<rparr>]"
  have h: "list_all has_time unit_files" by code_simp
  have v: "build_units unit_files = Inr ?rows" by code_simp
  have g: "group_times unit_files (''TT0'', 3) = [1, 3, 2]" by code_simp
  have m: "row_key ` set ?rows = {k. group_times unit_files k \<noteq> []} \<and>
        (\<forall>r\<in>set ?rows. unit_spike_times r = sort (group_times unit_files (row_key r)))"
    using build_units_merge[of unit_files ?rows] v by blast
  then have "sort (group_times unit_files (''TT0'', 3)) = [1, 2, 3]"
    by (simp add: row_key_def)
  moreover have "{k. group_times unit_files k \<noteq> []} = {(''TT0'', 3), (''TT10'', - 1), (''TT2'', 0)}"
    using m by (simp add: row_key_def)
  ultimately show ?thesis using h v g by simp
qed

lemma group_times_without:
  assumes "valid_spike_times cel = []"
  shows "group_times (before @ (tt_name, cel) # after) k = group_times (before @ after) k"
  using assms by (simp add: group_times_def)

text \<open>
  Claim C10. When the unit table is built, a key all of whose records have no valid spike
  time has no unit row, and no unit row has an empty spike-time sequence; and a record
  with no valid spike time contributes nothing: with it or without it the unit table is
  the same.
\<close>

theorem build_units_omits_empty:
  "(build_units files = Inr rows \<longrightarrow>
      (\<forall>k. list_all (\<lambda>f. unit_key f \<noteq> k \<or> valid_spike_times (snd f) = []) files
           \<longrightarrow> k \<notin> row_key ` set rows) \<and>
      (\<forall>r\<in>set rows. unit_spike_times r \<noteq> [])) \<and>
   (has_time (tt_name, cel) \<and> valid_spike_times cel = [] \<longrightarrow>
      build_units (before @ (tt_name, cel) # after) = build_units (before @ after))"
proof (intro conjI impI allI)
  fix k
  assume a: "build_units files = Inr rows"
    and e: "list_all (\<lambda>f. unit_key f \<noteq> k \<or> valid_spike_times (snd f) = []) files"
  have keys: "map row_key rows = sorted_list_of_set (group_keys files)"
    using build_units_rows[OF a] by simp
  have "set (map row_key rows) = group_keys files"
    unfolding keys by (simp add: finite_group_keys)
  moreover have "group_times files k = []"
    using e by (auto simp: group_times_def list_all_iff)
  ultimately show "k \<notin> row_key ` set rows"
    by (simp add: group_keys_def)
next
  assume a: "build_units files = Inr rows"
  have keys: "map row_key rows = sorted_list_of_set (group_keys files)"
    and rows: "rows = map (unit_of files) (sorted_list_of_set (group_keys files))"
    using build_units_rows[OF a] by simp_all
  have "set (sorted_list_of_set (group_keys files)) = group_keys files"
    by (simp add: finite_group_keys)
  then have "\<forall>k\<in>set (sorted_list_of_set (group_keys files)). sort (group_times files k) \<noteq> []"
    by (auto simp: group_keys_def simp flip: set_empty)
  then show "\<forall>r\<in>set rows. unit_spike_times r \<noteq> []"
    unfolding rows by (simp add: unit_of_def)
next
  assume a: "has_time (tt_name, cel) \<and> valid_spike_times cel = []"
  then have g: "group_times (before @ (tt_name, cel) # after) k = group_times (before @ after) k" for k
    by (simp add: group_times_without)
  then have "group_keys (before @ (tt_name, cel) # after) = group_keys (before @ after)"
    by (simp add: group_keys_def)
  moreover have "unit_of (before @ (tt_name, cel) # after) = unit_of (before @ after)"
    using g by (simp add: unit_of_def fun_eq_iff)
  moreover have "list_all has_time (before @ (tt_name, cel) # after) = list_all has_time (before @ after)"
    using a by simp
  ultimately show "build_units (before @ (tt_name, cel) # after) = build_units (before @ after)"
    by (simp add: build_units_char)
qed

theorem build_units_omits_empty_witness:
  "build_units unit_files_empty = Inr [\<lparr> unit_spike_times = [7], tetrode = ''TT1'', cluster_id = 2 \<rparr>] \<and>
   list_all (\<lambda>f. unit_key f \<noteq> (''TT0'', 4) \<or> valid_spike_times (snd f) = []) unit_files_empty \<and>
   (''TT0'', 4) \<notin> row_key ` set [\<lparr> unit_spike_times = [7 :: real], tetrode = ''TT1'', cluster_id = 2 \<rparr>] \<and>
   (''TT0'', 4) \<in> unit_key ` set unit_files_empty \<and>
   has_time (hd unit_files_empty) \<and> valid_spike_times (snd (hd unit_files_empty)) = [] \<and>
   build_units (tl unit_files_empty) = build_units unit_files_empty"
proof -
  let ?rows = "[\<lparr> unit_spike_times = [7 :: real], tetrode = ''TT1'', cluster_id = 2 \<rparr>]"
  have v: "build_units unit_files_empty = Inr ?rows" by code_simp
  have e: "list_all (\<lambda>f. unit_key f \<noteq> (''TT0'', 4) \<or> valid_spike_times (snd f) = []) unit_files_empty"
    by code_simp
  have k: "(''TT0'', 4) \<in> unit_key ` set unit_files_empty" by code_simp
  have h: "has_time (hd unit_files_empty) \<and> valid_spike_times (snd (hd unit_files_empty)) = []"
    by code_simp
  have s: "unit_files_empty = [] @ (fst (hd unit_files_empty), snd (hd unit_files_empty)) # tl unit_files_empty"
    by code_simp
  have 1: "(''TT0'', 4) \<notin> row_key ` set ?rows"
    using build_units_omits_empty[of unit_files_empty ?rows] v e by blast
  have "has_time (fst (hd unit_files_empty), snd (hd unit_files_empty)) \<and>
        valid_spike_times (snd (hd unit_files_empty)) = [] \<longrightarrow>
        build_units ([] @ (fst (hd unit_files_empty), snd (hd unit_files_empty)) # tl unit_files_empty)
        = build_units ([] @ tl unit_files_empty)"
    using build_units_omits_empty[of "[]" "[]" "fst (hd unit_files_empty)"
            "snd (hd unit_files_empty)" "[]" "tl unit_files_empty"]
    by blast
  then have "build_units ([] @ (fst (hd unit_files_empty), snd (hd unit_files_empty)) # tl unit_files_empty)
        = build_units ([] @ tl unit_files_empty)"
    using h by simp
  then have 2: "build_units (tl unit_files_empty) = build_units unit_files_empty"
    using s by simp
  show ?thesis using v e k h 1 2 by blast
qed

lemma to_numeric_Some: "to_numeric c = Some v \<longleftrightarrow> c = Num v"
  by (cases c) auto

lemma masked_zip_rows:
  "masked_zip (map f rows) (map g rows) (map h rows) =
     concat (map (\<lambda>row. case (f row, g row, h row) of
                           (Some t, Some x, Some y) \<Rightarrow> [(t, x, y)]
                         | _ \<Rightarrow> []) rows)"
proof (induction rows)
  case Nil
  then show ?case by simp
next
  case (Cons row rows)
  show ?case
  proof (cases "f row")
    case None
    then show ?thesis using Cons by simp
  next
    case (Some t)
    note ft = Some
    show ?thesis
    proof (cases "g row")
      case None
      then show ?thesis using Cons ft by simp
    next
      case (Some x)
      note gx = Some
      show ?thesis
      proof (cases "h row")
        case None
        then show ?thesis using Cons ft gx by simp
      next
        case (Some y)
        then show ?thesis using Cons ft gx by simp
      qed
    qed
  qed
qed

lemma sample_of_numeric:
  "(case (to_numeric a, to_numeric b, to_numeric c) of
      (Some t, Some x, Some y) \<Rightarrow> [(t, x, y)]
    | _ \<Rightarrow> []) =
   (case (a, b, c) of (Num t, Num x, Num y) \<Rightarrow> [(t, x, y)] | _ \<Rightarrow> [])"
  by (cases a; cases b; cases c) simp_all

lemma column_has:
  "column cel name =
     (if name \<in> set (fields_list cel)
      then Inr (map (\<lambda>row. cell_at row (index_of (fields_list cel) name)) (data cel))
      else Inl (KeyError name))"
  by (simp add: column_def)

lemma time_pos_pairs_step:
  assumes "has_position cel" "''time'' \<in> set (fields_list cel)"
    "''pos_x'' \<in> set (fields_list cel)" "''pos_y'' \<in> set (fields_list cel)"
  shows "time_pos_pairs ((tt_name, cel) # rest) acc = time_pos_pairs rest (acc @ valid_samples cel)"
proof -
  let ?c = "\<lambda>name row. to_numeric (cell_at row (index_of (fields_list cel) name))"
  have st: "spike_times cel = Inr (map (?c ''time'') (data cel))"
    using assms by (simp add: spike_times_def column_has)
  have px: "pos_x cel = Inr (Some (map (?c ''pos_x'') (data cel)))"
    using assms by (simp add: pos_x_def column_has)
  have py: "pos_y cel = Inr (Some (map (?c ''pos_y'') (data cel)))"
    using assms by (simp add: pos_y_def column_has)
  have "masked_zip (map (?c ''time'') (data cel)) (map (?c ''pos_x'') (data cel)) (map (?c ''pos_y'') (data cel))
        = valid_samples cel"
    unfolding masked_zip_rows valid_samples_def sample_of_def sample_of_numeric ..
  then show ?thesis using assms(1) by (simp add: st px py)
qed

lemma time_pos_pairs_skip:
  "\<not> has_position cel \<Longrightarrow> time_pos_pairs ((tt_name, cel) # rest) acc = time_pos_pairs rest acc"
  by simp

lemma time_pos_pairs_missing:
  assumes "has_position cel"
    and "\<not> (''time'' \<in> set (fields_list cel) \<and> ''pos_x'' \<in> set (fields_list cel) \<and>
            ''pos_y'' \<in> set (fields_list cel))"
  shows "\<exists>e. time_pos_pairs ((tt_name, cel) # rest) acc = Inl e"
  using assms
  by (auto simp: spike_times_def pos_x_def pos_y_def column_has split: sum.splits)

lemma pooled_Cons:
  "pooled ((tt_name, cel) # rest) = (if has_position cel then valid_samples cel else []) @ pooled rest"
  by (simp add: pooled_def)

lemma time_pos_pairs_char:
  "(list_all pos_ok files \<longrightarrow> time_pos_pairs files acc = Inr (acc @ pooled files)) \<and>
   (\<not> list_all pos_ok files \<longrightarrow> (\<exists>e. time_pos_pairs files acc = Inl e))"
proof (induction files arbitrary: acc)
  case Nil
  then show ?case by (simp add: pooled_def)
next
  case (Cons f files)
  obtain tt_name cel where f: "f = (tt_name, cel)" by (cases f)
  show ?case
  proof (cases "has_position cel")
    case False
    then have "pos_ok f" by (simp add: pos_ok_def f)
    then show ?thesis
      using False Cons.IH[of acc] by (simp add: f pooled_Cons)
  next
    case True
    show ?thesis
    proof (cases "pos_ok f")
      case False
      then have "\<not> (''time'' \<in> set (fields_list cel) \<and> ''pos_x'' \<in> set (fields_list cel) \<and>
            ''pos_y'' \<in> set (fields_list cel))"
        using True by (simp add: pos_ok_def f)
      then have "\<exists>e. time_pos_pairs ((tt_name, cel) # files) acc = Inl e"
        using True by (intro time_pos_pairs_missing)
      then show ?thesis using False by (simp add: f)
    next
      case ok: True
      then have cols: "''time'' \<in> set (fields_list cel)" "''pos_x'' \<in> set (fields_list cel)"
            "''pos_y'' \<in> set (fields_list cel)"
        using True by (simp_all add: pos_ok_def f)
      have step: "time_pos_pairs ((tt_name, cel) # files) acc = time_pos_pairs files (acc @ valid_samples cel)"
        using True cols by (rule time_pos_pairs_step)
      show ?thesis
        using ok True Cons.IH[of "acc @ valid_samples cel"]
        by (simp add: step pooled_Cons f del: time_pos_pairs.simps)
    qed
  qed
qed

lemma index_of_nth: "v \<in> set xs \<Longrightarrow> index_of xs v < length xs \<and> xs ! index_of xs v = v"
  by (induction xs) auto

lemma find_index_of:
  "v \<in> f ` set xs \<Longrightarrow> find (\<lambda>q. f q = v) xs = Some (xs ! index_of (map f xs) v)"
  by (induction xs) auto

lemma find_filter: "find P xs = (case filter P xs of [] \<Rightarrow> None | x # _ \<Rightarrow> Some x)"
  by (induction xs) auto

lemma find_sort_key: "find (\<lambda>q. f q = v) (sort_key f xs) = find (\<lambda>q. f q = v) xs"
  by (simp add: find_filter sort_key_stable)

lemma dedup_char:
  fixes pairs :: "(('a::linorder) \<times> 'a \<times> 'a) list"
  defines "sp \<equiv> sort_key fst pairs"
  defines "vals \<equiv> sorted_list_of_set (fst ` set pairs)"
  shows "take_idx (map fst sp) (np_unique_index (map fst sp)) = vals"
    and "zip (take_idx (map (\<lambda>p. fst (snd p)) sp) (np_unique_index (map fst sp)))
             (take_idx (map (\<lambda>p. snd (snd p)) sp) (np_unique_index (map fst sp)))
         = map (\<lambda>v. snd (first_with v sp)) vals"
    and "\<forall>v\<in>set vals. find (\<lambda>q. fst q = v) pairs = Some (first_with v sp)"
proof -
  have sv: "set (map fst sp) = fst ` set pairs" by (simp add: sp_def)
  have vals: "sorted_list_of_set (set (map fst sp)) = vals" by (simp only: vals_def sv)
  have setvals: "set vals = fst ` set pairs" by (simp add: vals_def)
  have idx: "np_unique_index (map fst sp) = map (index_of (map fst sp)) vals"
    by (simp only: np_unique_index_def vals)
  have inr: "index_of (map fst sp) v < length sp" if "v \<in> set vals" for v
    using index_of_nth[of v "map fst sp"] that sv setvals by simp
  show "take_idx (map fst sp) (np_unique_index (map fst sp)) = vals"
  proof -
    have "map (\<lambda>i. map fst sp ! i) (map (index_of (map fst sp)) vals) = map (\<lambda>v. v) vals"
      unfolding map_map comp_def
    proof (rule map_cong)
      fix v assume "v \<in> set vals"
      then have "v \<in> set (map fst sp)" using sv setvals by simp
      then show "map fst sp ! index_of (map fst sp) v = v"
        by (rule index_of_nth[THEN conjunct2])
    qed simp
    then show ?thesis by (simp add: take_idx_def idx)
  qed
  show "zip (take_idx (map (\<lambda>p. fst (snd p)) sp) (np_unique_index (map fst sp)))
             (take_idx (map (\<lambda>p. snd (snd p)) sp) (np_unique_index (map fst sp)))
         = map (\<lambda>v. snd (first_with v sp)) vals"
  proof -
    have "zip (map (\<lambda>v. map (\<lambda>p. fst (snd p)) sp ! index_of (map fst sp) v) vals)
              (map (\<lambda>v. map (\<lambda>p. snd (snd p)) sp ! index_of (map fst sp) v) vals)
          = map (\<lambda>v. (map (\<lambda>p. fst (snd p)) sp ! index_of (map fst sp) v,
                       map (\<lambda>p. snd (snd p)) sp ! index_of (map fst sp) v)) vals"
      by (simp add: zip_map_map zip_same_conv_map)
    also have "\<dots> = map (\<lambda>v. snd (first_with v sp)) vals"
    proof (rule map_cong)
      fix v assume "v \<in> set vals"
      then have "index_of (map fst sp) v < length sp" by (rule inr)
      then show "(map (\<lambda>p. fst (snd p)) sp ! index_of (map fst sp) v,
                  map (\<lambda>p. snd (snd p)) sp ! index_of (map fst sp) v) = snd (first_with v sp)"
        by (simp add: first_with_def)
    qed simp
    finally show ?thesis by (simp add: take_idx_def idx comp_def)
  qed
  show "\<forall>v\<in>set vals. find (\<lambda>q. fst q = v) pairs = Some (first_with v sp)"
  proof
    fix v assume "v \<in> set vals"
    then have "v \<in> fst ` set sp" using setvals by (simp add: sp_def)
    then have "find (\<lambda>q. fst q = v) sp = Some (first_with v sp)"
      unfolding first_with_def by (rule find_index_of)
    then show "find (\<lambda>q. fst q = v) pairs = Some (first_with v sp)"
      by (simp add: sp_def find_sort_key)
  qed
qed


lemma np_unique_index_in_range: "i \<in> set (np_unique_index ar) \<Longrightarrow> i < length ar"
  by (auto simp: np_unique_index_def index_of_nth)

lemma add_position_data_fails:
  assumes "\<not> list_all pos_ok files"
  shows "\<exists>e. add_position_data files = Inl e"
proof -
  obtain e where "time_pos_pairs files [] = Inl e"
    using assms time_pos_pairs_char[of files "[]"] by blast
  then show ?thesis by (simp add: add_position_data_def)
qed

lemma add_position_data_ok:
  assumes "list_all pos_ok files"
  shows "add_position_data files =
     (if pooled files = [] then Inr None
      else Inr (Some \<lparr> timestamps = sorted_list_of_set (fst ` set (pooled files)),
                        xy = map (\<lambda>v. snd (first_with v (sort_key fst (pooled files))))
                               (sorted_list_of_set (fst ` set (pooled files))) \<rparr>))"
proof -
  have tp: "time_pos_pairs files [] = Inr (pooled files)"
    using assms time_pos_pairs_char[of files "[]"] by simp
  show ?thesis
    by (simp add: add_position_data_def tp Let_def dedup_char(1,2))
qed

text \<open>
  Claim C3. When a position trace is added, its samples are samples of the pool (triples of
  position-bearing records whose time and two coordinates are all numbers); its times are
  strictly ascending and are exactly the times that occur in the pool; and the sample it
  has for a time is the first sample of the pool with that time, in pooling order - every
  later sample with an equal time is dropped. No trace is added only when the pool is
  empty, and the trace is computed whenever every position-bearing record has the three
  columns.
\<close>

theorem add_position_data_trace:
  "(add_position_data files = Inr (Some pos) \<longrightarrow>
      length (timestamps pos) = length (xy pos) \<and>
      sorted_wrt (<) (timestamps pos) \<and>
      set (timestamps pos) = fst ` set (pooled files) \<and>
      (\<forall>p\<in>set (trace_of pos). find (\<lambda>q. fst q = fst p) (pooled files) = Some p)) \<and>
   (add_position_data files = Inr None \<longrightarrow> pooled files = []) \<and>
   (list_all pos_ok files \<longrightarrow> (\<exists>r. add_position_data files = Inr r))"
proof (intro conjI impI)
  let ?vals = "sorted_list_of_set (fst ` set (pooled files))"
  let ?sp = "sort_key fst (pooled files)"
  assume a: "add_position_data files = Inr (Some pos)"
  then have ok: "list_all pos_ok files"
    using add_position_data_fails[of files] by auto
  have pos: "pos = \<lparr> timestamps = ?vals, xy = map (\<lambda>v. snd (first_with v ?sp)) ?vals \<rparr>"
    using a add_position_data_ok[OF ok] by (auto split: if_splits)
  show "length (timestamps pos) = length (xy pos)" by (simp add: pos)
  show "sorted_wrt (<) (timestamps pos)" by (simp add: pos strict_sorted_iff)
  show "set (timestamps pos) = fst ` set (pooled files)" by (simp add: pos)
  show "\<forall>p\<in>set (trace_of pos). find (\<lambda>q. fst q = fst p) (pooled files) = Some p"
  proof
    fix p assume "p \<in> set (trace_of pos)"
    then have "p \<in> set (map (\<lambda>v. (v, snd (first_with v ?sp))) ?vals)"
      by (simp add: trace_of_def pos zip_map2 zip_same_conv_map)
    then obtain v where v: "v \<in> set ?vals" "p = (v, snd (first_with v ?sp))" by auto
    have f: "find (\<lambda>q. fst q = v) (pooled files) = Some (first_with v ?sp)"
      using dedup_char(3)[of "pooled files"] v(1) by blast
    then have fv: "fst (first_with v ?sp) = v" by (auto simp: find_Some_iff)
    then have pv: "p = first_with v ?sp" using v(2) by (metis prod.collapse)
    have "fst p = v" using v(2) by simp
    then show "find (\<lambda>q. fst q = fst p) (pooled files) = Some p"
      using f pv by simp
  qed
next
  assume a: "add_position_data files = Inr None"
  then have ok: "list_all pos_ok files"
    using add_position_data_fails[of files] by auto
  show "pooled files = []"
    using a add_position_data_ok[OF ok] by (auto split: if_splits)
next
  assume "list_all pos_ok files"
  then show "\<exists>r. add_position_data files = Inr r"
    by (simp add: add_position_data_ok)
qed

theorem add_position_data_trace_witness:
  "list_all pos_ok position_files \<and>
   pooled position_files = [(5, 1, 2), (9, 9, 9), (5, 8, 9), (4, 4, 3)] \<and>
   add_position_data position_files =
     Inr (Some \<lparr> timestamps = [4, 5, 9], xy = [(4, 3), (1, 2), (9, 9)] \<rparr>) \<and>
   find (\<lambda>q. fst q = fst (5 :: real, 1 :: real, 2 :: real)) (pooled position_files) = Some (5, 1, 2)"
proof -
  let ?pos = "\<lparr> timestamps = [4, 5, 9 :: real], xy = [(4, 3), (1, 2), (9, 9 :: real)] \<rparr>"
  have k: "list_all pos_ok position_files" by code_simp
  have p: "pooled position_files = [(5, 1, 2), (9, 9, 9), (5, 8, 9), (4, 4, 3)]" by code_simp
  have v: "add_position_data position_files = Inr (Some ?pos)" by code_simp
  have m: "(5, 1, 2) \<in> set (trace_of ?pos)" by (simp add: trace_of_def)
  have "\<forall>p\<in>set (trace_of ?pos). find (\<lambda>q. fst q = fst p) (pooled position_files) = Some p"
    using add_position_data_trace[of position_files ?pos] v by blast
  then have "find (\<lambda>q. fst q = fst (5 :: real, 1 :: real, 2 :: real)) (pooled position_files) = Some (5, 1, 2)"
    using m by blast
  then show ?thesis using k p v by blast
qed

end
